theory Spec2Isabelle
  imports Main "HOL-Library.Word"
begin

section \<open>Outcomes of a call\<close>

text \<open>
  A C++ call of the repository either returns, throws, or ends the process. The last two are
  values of \<open>error\<close>: \<open>runtime_error msg\<close> is a thrown \<^verbatim>\<open>std::runtime_error(msg)\<close>,
  \<open>assertion_failed\<close> is a failed \<^verbatim>\<open>assert\<close> (the process aborts), \<open>undefined_behaviour\<close>
  is an access the language gives no meaning to (a vector or array read out of range, a null
  pointer dereferenced), \<open>process_abort\<close> is a fatal abort with a diagnostic and
  \<open>process_exit\<close> is a call of \<^verbatim>\<open>exit\<close>.
\<close>

datatype error =
    runtime_error string
  | assertion_failed
  | undefined_behaviour
  | process_abort
  | process_exit

text \<open>
  Compile-time switches. \<open>kFaultInjection\<close> and \<open>kDatapathChecks\<close> are constants declared
  outside the given sources, \<open>asserts_enabled\<close> says that \<^verbatim>\<open>assert\<close> is compiled in
  (\<^verbatim>\<open>NDEBUG\<close> not defined); they are parameters of every function below.
\<close>

record BuildConfig =
  kFaultInjection :: bool
  kDatapathChecks :: bool
  asserts_enabled :: bool

section \<open>Fault injection: \<^verbatim>\<open>src/rpc_impl/rpc_fault_inject.cc\<close>\<close>

subsection \<open>Data\<close>

text \<open>
  Modelled from the spec: the session-management packet types, the session roles and states,
  and the fields of a message buffer, an exchange, a session and an endpoint are declared in
  headers that are not among the given sources; they follow sections 3 and 4.4 of the
  specification. The two packet types the source names are \<open>kFaultDropTxRemote\<close> and
  \<open>kFaultResetPeerReq\<close>.
\<close>

datatype SmPktType =
    kConnectReq | kConnectResp | kDisconnectReq | kDisconnectResp
  | kFaultDropTxRemote | kFaultResetPeerReq | kFaultResetPeerResp

datatype SessionRole = kServer | kClient

datatype SessionState =
    kConnectInProgress | kConnected | kDisconnectInProgress | kResetInProgress | kError

record MsgBuffer =
  max_data_size :: nat
  buf :: "8 word list"       \<comment> \<open>the payload; its length is the data size\<close>

record Exchange =
  x_req_type :: "8 word"
  x_req :: MsgBuffer
  x_resp :: MsgBuffer
  x_cont :: nat              \<comment> \<open>the continuation, a function pointer\<close>
  x_tag :: "64 word"
  x_rx_pkts :: nat           \<comment> \<open>response packets received so far\<close>

record Session =
  role :: SessionRole
  state :: SessionState
  local_session_num :: nat
  server_hostname :: string
  server_rpc_id :: "8 word"
  remote_session_num :: "nat option"  \<comment> \<open>the peer's number for the session, once known\<close>
  credits :: nat                    \<comment> \<open>datapath: credit counter\<close>
  seq_counter :: "64 word"          \<comment> \<open>datapath: exchange sequence counter\<close>
  slots :: "Exchange option list"   \<comment> \<open>datapath: the window; \<open>None\<close> is an idle slot\<close>

record SmPkt =
  pkt_type :: SmPktType
  sender_hostname :: string
  sender_rpc_id :: "8 word"
  sender_session_num :: nat
  dst_hostname :: string
  dst_rpc_id :: "8 word"
  dst_session_num :: "nat option"
  gen_data :: "64 word"

record Faults =
  resolve_server_rinfo :: bool
  drop_tx_local :: bool
  drop_tx_local_countdown :: "64 word"

record Rpc =
  creator_tid :: nat
  rpc_hostname :: string                   \<comment> \<open>the URI of the process, held by the Nexus\<close>
  rpc_id :: "8 word"
  rpc_context :: nat                       \<comment> \<open>the opaque pointer given at construction\<close>
  session_vec :: "Session option list"   \<comment> \<open>\<open>None\<close> is a null entry\<close>
  faults :: Faults
  sm_tx :: "SmPkt list"                  \<comment> \<open>session-management messages emitted, oldest first\<close>
  tx_list :: "(nat \<times> nat \<times> nat) list"  \<comment> \<open>datapath: packets to send (session, slot, index)\<close>

definition is_connected :: "Session \<Rightarrow> bool" where
  "is_connected s = (state s = kConnected)"

definition is_client :: "Session \<Rightarrow> bool" where
  "is_client s = (role s = kClient)"

text \<open>
  Modelled from the spec: \<open>in_creator\<close>, \<open>is_usr_session_num_in_range\<close> and
  \<open>enqueue_sm_req_st\<close> are members of \<^verbatim>\<open>Rpc\<close> defined outside the given sources.
  \<open>in_creator\<close> compares the calling thread with the thread that created the endpoint;
  the session number is in range when it indexes the session table; \<open>enqueue_sm_req_st\<close>
  emits one session-management message of the given type to the peer of the session
  (the server side of a client session), carrying the type-specific payload. By section 4.4
  a message names its sender and the session on both sides, when the other side is known.
\<close>

definition in_creator :: "Rpc \<Rightarrow> nat \<Rightarrow> bool" where
  "in_creator rpc tid = (tid = creator_tid rpc)"

definition is_usr_session_num_in_range :: "Rpc \<Rightarrow> int \<Rightarrow> bool" where
  "is_usr_session_num_in_range rpc session_num =
     (0 \<le> session_num \<and> nat session_num < length (session_vec rpc))"

definition enqueue_sm_req_st :: "Rpc \<Rightarrow> Session \<Rightarrow> SmPktType \<Rightarrow> 64 word \<Rightarrow> Rpc" where
  "enqueue_sm_req_st rpc session ty payload =
     rpc\<lparr>sm_tx := sm_tx rpc @
        [\<lparr>pkt_type = ty, sender_hostname = rpc_hostname rpc, sender_rpc_id = rpc_id rpc,
          sender_session_num = local_session_num session,
          dst_hostname = server_hostname session, dst_rpc_id = server_rpc_id session,
          dst_session_num = remote_session_num session,
          gen_data = payload\<rparr>]\<rparr>"

subsection \<open>The operations\<close>

text \<open>
  Every operation takes the build configuration, the calling thread and the endpoint, and
  returns what the call did together with the endpoint after it. \<^verbatim>\<open>erpc_dprintf\<close> only
  prints and is left out.
\<close>

definition fault_inject_check_ok :: "BuildConfig \<Rightarrow> nat \<Rightarrow> Rpc \<Rightarrow> error + unit" where
  "fault_inject_check_ok cfg tid rpc =
     (if \<not> kFaultInjection cfg
      then Inl (runtime_error ''eRPC Rpc: Fault injection is disabled.'')
      else if \<not> in_creator rpc tid
      then Inl (runtime_error ''eRPC Rpc: Non-creator threads cannot inject faults.'')
      else Inr ())"

definition fault_inject_resolve_server_rinfo_st ::
  "BuildConfig \<Rightarrow> nat \<Rightarrow> Rpc \<Rightarrow> (error + unit) \<times> Rpc" where
  "fault_inject_resolve_server_rinfo_st cfg tid rpc =
     (case fault_inject_check_ok cfg tid rpc of
        Inl e \<Rightarrow> (Inl e, rpc)
      | Inr _ \<Rightarrow> (Inr (), rpc\<lparr>faults := (faults rpc)\<lparr>resolve_server_rinfo := True\<rparr>\<rparr>))"

definition fault_inject_drop_tx_local_st ::
  "BuildConfig \<Rightarrow> nat \<Rightarrow> 64 word \<Rightarrow> Rpc \<Rightarrow> (error + unit) \<times> Rpc" where
  "fault_inject_drop_tx_local_st cfg tid pkt_countdown rpc =
     (case fault_inject_check_ok cfg tid rpc of
        Inl e \<Rightarrow> (Inl e, rpc)
      | Inr _ \<Rightarrow>
          (Inr (), rpc\<lparr>faults := (faults rpc)\<lparr>drop_tx_local := True,
                                               drop_tx_local_countdown := pkt_countdown\<rparr>\<rparr>))"

text \<open>
  The two remote operations run the three assertions of the source in their order. With
  assertions compiled out, a session number out of range (the vector is indexed without a
  check) or a null entry (it is dereferenced) is an access without meaning, and a session
  that is not a connected client is used as it is.
\<close>

definition fault_inject_drop_tx_remote_st ::
  "BuildConfig \<Rightarrow> nat \<Rightarrow> int \<Rightarrow> 64 word \<Rightarrow> Rpc \<Rightarrow> (error + unit) \<times> Rpc" where
  "fault_inject_drop_tx_remote_st cfg tid session_num pkt_countdown rpc =
     (case fault_inject_check_ok cfg tid rpc of
        Inl e \<Rightarrow> (Inl e, rpc)
      | Inr _ \<Rightarrow>
          if \<not> is_usr_session_num_in_range rpc session_num
          then (Inl (if asserts_enabled cfg then assertion_failed else undefined_behaviour), rpc)
          else (case session_vec rpc ! nat session_num of
             None \<Rightarrow>
               (Inl (if asserts_enabled cfg then assertion_failed else undefined_behaviour), rpc)
           | Some session \<Rightarrow>
               if asserts_enabled cfg \<and> \<not> (is_connected session \<and> is_client session)
               then (Inl assertion_failed, rpc)
               else (Inr (), enqueue_sm_req_st rpc session kFaultDropTxRemote pkt_countdown)))"

text \<open>
  The reset operation calls \<open>enqueue_sm_req_st\<close> with two arguments; the payload is the
  default argument of its declaration, a parameter here.
\<close>

definition fault_inject_reset_remote_epeer_st ::
  "BuildConfig \<Rightarrow> 64 word \<Rightarrow> nat \<Rightarrow> int \<Rightarrow> Rpc \<Rightarrow> (error + unit) \<times> Rpc" where
  "fault_inject_reset_remote_epeer_st cfg default_gen_data tid session_num rpc =
     (case fault_inject_check_ok cfg tid rpc of
        Inl e \<Rightarrow> (Inl e, rpc)
      | Inr _ \<Rightarrow>
          if \<not> is_usr_session_num_in_range rpc session_num
          then (Inl (if asserts_enabled cfg then assertion_failed else undefined_behaviour), rpc)
          else (case session_vec rpc ! nat session_num of
             None \<Rightarrow>
               (Inl (if asserts_enabled cfg then assertion_failed else undefined_behaviour), rpc)
           | Some session \<Rightarrow>
               if asserts_enabled cfg \<and> \<not> (is_client session \<and> is_connected session)
               then (Inl assertion_failed, rpc)
               else (Inr (), enqueue_sm_req_st rpc session kFaultResetPeerReq default_gen_data)))"

text \<open>
  The names of the specification. \<open>FAULT_INJECTION_FORBIDDEN\<close> is the failure of a
  fault-injection call: one of the two exceptions \<open>fault_inject_check_ok\<close> throws.
  \<open>fault_inject_session_ok\<close> is the precondition on the session of the two remote operations:
  the number is in range, the entry is not null, the session is a connected client.
\<close>

definition FAULT_INJECTION_FORBIDDEN :: "error \<Rightarrow> bool" where
  "FAULT_INJECTION_FORBIDDEN e =
     (e = runtime_error ''eRPC Rpc: Fault injection is disabled.'' \<or>
      e = runtime_error ''eRPC Rpc: Non-creator threads cannot inject faults.'')"

definition fault_inject_session_ok :: "Rpc \<Rightarrow> int \<Rightarrow> bool" where
  "fault_inject_session_ok rpc session_num =
     (is_usr_session_num_in_range rpc session_num \<and>
      (case session_vec rpc ! nat session_num of
         None \<Rightarrow> False
       | Some session \<Rightarrow> is_client session \<and> is_connected session))"

text \<open>The message a fault operation of type \<open>ty\<close> sends for a session, with payload \<open>n\<close>.\<close>

definition fault_sm_pkt :: "Rpc \<Rightarrow> Session \<Rightarrow> SmPktType \<Rightarrow> 64 word \<Rightarrow> SmPkt" where
  "fault_sm_pkt rpc session ty n =
     \<lparr>pkt_type = ty, sender_hostname = rpc_hostname rpc, sender_rpc_id = rpc_id rpc,
      sender_session_num = local_session_num session,
      dst_hostname = server_hostname session, dst_rpc_id = server_rpc_id session,
      dst_session_num = remote_session_num session,
      gen_data = n\<rparr>"

subsection \<open>The peer\<close>

text \<open>
  Modelled from the spec: what the peer does with a reset-peer request is code of the
  session manager that is not among the given sources. By section 4.8 the message forces the
  peer to discard and reconnect; by section 4.3 and scenario 3 of section 8 the peer's
  session goes from connected to reset-in-progress and back to connected; by section 4.3 a
  message is routed by endpoint identifier and local session number, and by section 4.4
  each message is acknowledged. So the request, arriving at the endpoint it names for a
  connected session, puts the session into reset-in-progress, discards what the session
  holds (its exchanges, sequence and used credits, leaving it as a new session of the same
  window), and is answered by a reset-peer response to its sender. A request that does not
  reach a connected session of the endpoint leaves the endpoint as it is.
\<close>




text \<open>A concrete endpoint for the examples: created by thread 7, one connected client session.\<close>

definition example_session :: Session where
  "example_session =
     \<lparr>role = kClient, state = kConnected, local_session_num = 0,
      server_hostname = ''localhost'', server_rpc_id = 3, remote_session_num = Some 0,
      credits = 8, seq_counter = 0, slots = [None, None]\<rparr>"

definition example_rpc :: Rpc where
  "example_rpc =
     \<lparr>creator_tid = 7, rpc_hostname = ''localhost'', rpc_id = 1, rpc_context = 4096, session_vec = [Some example_session],
      faults = \<lparr>resolve_server_rinfo = False, drop_tx_local = False,
                drop_tx_local_countdown = 0\<rparr>,
      sm_tx = [], tx_list = []\<rparr>"



definition example_cfg :: BuildConfig where
  "example_cfg = \<lparr>kFaultInjection = True, kDatapathChecks = True, asserts_enabled = True\<rparr>"

section \<open>The persistent key-value server: \<^verbatim>\<open>apps/persistent_kv/persistent_kv.cc\<close>\<close>

subsection \<open>Data\<close>

type_synonym size_t = "64 word"

definition kAppMaxServerBatch :: nat where
  "kAppMaxServerBatch = 16"

text \<open>A key is two machine words, a value four; a result code is an enumeration over \<open>size_t\<close>.\<close>

datatype Key = Key size_t size_t

datatype Value = Value size_t size_t size_t size_t

datatype Result = kGetFail | kSetSuccess | kSetFail

definition sizeof_Key :: size_t where "sizeof_Key = 16"
definition sizeof_Value :: size_t where "sizeof_Value = 32"
definition sizeof_Result :: size_t where "sizeof_Result = 8"

text \<open>
  A request buffer is read through two casts: a \<open>Key\<close> at its start and a \<open>Value\<close> behind
  it. The preallocated response buffer of a handle holds a \<open>Value\<close> or a \<open>Result\<close>, or
  nothing written yet. A handle is known by \<open>handle_id\<close>, which stands for its address.
\<close>

record ReqMsgBuffer =
  req_data_size :: size_t
  req_key :: Key
  req_value :: Value

datatype RespBuf = resp_unwritten | resp_value Value | resp_result Result

record ReqHandle =
  handle_id :: nat
  req_msgbuf :: ReqMsgBuffer
  prealloc_used :: bool
  pre_resp_size :: size_t
  pre_resp_buf :: RespBuf

text \<open>
  \<open>val_ptr_arr\<close> holds pointers: for a GET into the response buffer of the handle (where the
  table writes the value found), for a SET to the value inside the request buffer.
  \<open>key_ptr_arr\<close> points into request buffers, which do not change while the server holds
  them; the model stores the key pointed to.
\<close>

datatype ValuePtr = resp_buf_of nat | req_value_ptr Value

text \<open>
  The hash table (\<^verbatim>\<open>pmica.h\<close>) is not among the given sources. Its two operations the
  server calls are parameters: \<open>get_hash\<close>, and \<open>batch_op_drain_helper\<close>, which is given the
  table, the four argument arrays and the number of operations, and answers with the success
  array it filled, the values it wrote through the pointers of the GETs, and the table after
  the operations. \<^verbatim>\<open>prefetch\<close> changes nothing and is left out.
\<close>

record 'h HashMapOps =
  get_hash :: "Key \<Rightarrow> size_t"
  batch_op_drain_helper ::
    "'h \<Rightarrow> bool list \<Rightarrow> size_t list \<Rightarrow> Key list \<Rightarrow> ValuePtr list \<Rightarrow> size_t
       \<Rightarrow> (nat \<Rightarrow> bool) \<times> (nat \<Rightarrow> Value) \<times> 'h"

text \<open>
  The server's context. The five arrays have \<open>kAppMaxServerBatch\<close> entries each.
  \<open>enqueued_responses\<close> records the calls \<^verbatim>\<open>c->rpc->enqueue_response(req_handle)\<close> in
  their order, each with the handle as it was passed.
\<close>

record 'h ServerContext =
  num_reqs_tot :: size_t
  hashmap :: 'h
  num_reqs_in_batch :: size_t
  req_handle_arr :: "ReqHandle list"
  is_set_arr :: "bool list"
  key_ptr_arr :: "Key list"
  val_ptr_arr :: "ValuePtr list"
  keyhash_arr :: "size_t list"
  num_resps_tot :: size_t
  enqueued_responses :: "ReqHandle list"

subsection \<open>\<open>drain_batch\<close>\<close>

text \<open>
  One round of the loop of \<open>drain_batch\<close>, for index \<open>i\<close>: the response of the \<open>i\<close>-th
  handle is completed and enqueued. Reading an array at an index of \<open>kAppMaxServerBatch\<close>
  or more has no meaning.
\<close>

definition drain_batch_step ::
  "(nat \<Rightarrow> bool) \<Rightarrow> (nat \<Rightarrow> Value) \<Rightarrow> nat \<Rightarrow> 'h ServerContext \<Rightarrow> error + 'h ServerContext" where
  "drain_batch_step success_arr written i c =
     (if kAppMaxServerBatch \<le> i then Inl undefined_behaviour
      else
        let req_handle = (req_handle_arr c ! i)\<lparr>prealloc_used := True\<rparr>;
            req_handle' =
              (if is_set_arr c ! i
               then req_handle\<lparr>pre_resp_size := sizeof_Result,
                      pre_resp_buf := resp_result (if success_arr i then kSetSuccess else kSetFail)\<rparr>
               else if \<not> success_arr i
               then req_handle\<lparr>pre_resp_size := sizeof_Result,
                      pre_resp_buf := resp_result kGetFail\<rparr>
               else if val_ptr_arr c ! i = resp_buf_of (handle_id req_handle)
               then req_handle\<lparr>pre_resp_buf := resp_value (written i)\<rparr>
               else req_handle)
        in Inr (c\<lparr>req_handle_arr := (req_handle_arr c)[i := req_handle'],
                  enqueued_responses := enqueued_responses c @ [req_handle']\<rparr>))"

fun drain_batch_loop ::
  "(nat \<Rightarrow> bool) \<Rightarrow> (nat \<Rightarrow> Value) \<Rightarrow> nat list \<Rightarrow> 'h ServerContext \<Rightarrow> error + 'h ServerContext" where
  "drain_batch_loop success_arr written [] c = Inr c"
| "drain_batch_loop success_arr written (i # is) c =
     (case drain_batch_step success_arr written i c of
        Inl e \<Rightarrow> Inl e
      | Inr c' \<Rightarrow> drain_batch_loop success_arr written is c')"

definition drain_batch ::
  "BuildConfig \<Rightarrow> 'h HashMapOps \<Rightarrow> 'h ServerContext \<Rightarrow> error + 'h ServerContext" where
  "drain_batch cfg hm c =
     (if asserts_enabled cfg \<and> \<not> 0 < num_reqs_in_batch c then Inl assertion_failed
      else
        case batch_op_drain_helper hm (hashmap c) (is_set_arr c) (keyhash_arr c)
               (key_ptr_arr c) (val_ptr_arr c) (num_reqs_in_batch c) of
          (success_arr, written, hashmap') \<Rightarrow>
            (case drain_batch_loop success_arr written [0 ..< unat (num_reqs_in_batch c)]
                    (c\<lparr>hashmap := hashmap'\<rparr>) of
               Inl e \<Rightarrow> Inl e
             | Inr c' \<Rightarrow>
                 Inr (c'\<lparr>num_resps_tot := num_resps_tot c' + num_reqs_in_batch c',
                         num_reqs_in_batch := 0\<rparr>)))"

subsection \<open>\<open>req_handler\<close>\<close>

text \<open>
  The handler up to and including its two counter increments: the request is recorded at
  index \<open>num_reqs_in_batch\<close> of the arrays. A request whose size is neither that of a GET nor
  that of a SET fails the assertion; with assertions compiled out the entries of
  \<open>is_set_arr\<close> and \<open>val_ptr_arr\<close> keep what they held.
\<close>

definition req_handler_record ::
  "BuildConfig \<Rightarrow> 'h HashMapOps \<Rightarrow> ReqHandle \<Rightarrow> 'h ServerContext \<Rightarrow> error + 'h ServerContext" where
  "req_handler_record cfg hm req_handle0 c =
     (let req = req_msgbuf req_handle0;
          req_size = req_data_size req;
          req_handle = req_handle0\<lparr>prealloc_used := True, pre_resp_size := sizeof_Value\<rparr>;
          batch_i = unat (num_reqs_in_batch c);
          key = req_key req
      in
        if kAppMaxServerBatch \<le> batch_i then Inl undefined_behaviour
        else
          let c1 = c\<lparr>req_handle_arr := (req_handle_arr c)[batch_i := req_handle],
                      key_ptr_arr := (key_ptr_arr c)[batch_i := key],
                      keyhash_arr := (keyhash_arr c)[batch_i := get_hash hm key]\<rparr>
          in
            case
              (if req_size = sizeof_Key
               then Inr (c1\<lparr>is_set_arr := (is_set_arr c1)[batch_i := False],
                            val_ptr_arr := (val_ptr_arr c1)[batch_i := resp_buf_of (handle_id req_handle)]\<rparr>)
               else if req_size = sizeof_Key + sizeof_Value
               then Inr (c1\<lparr>is_set_arr := (is_set_arr c1)[batch_i := True],
                            val_ptr_arr := (val_ptr_arr c1)[batch_i := req_value_ptr (req_value req)]\<rparr>)
               else if asserts_enabled cfg then Inl assertion_failed
               else Inr c1)
            of
              Inl e \<Rightarrow> Inl e
            | Inr c2 \<Rightarrow>
                Inr (c2\<lparr>num_reqs_tot := num_reqs_tot c2 + 1,
                        num_reqs_in_batch := num_reqs_in_batch c2 + 1\<rparr>))"

definition req_handler ::
  "BuildConfig \<Rightarrow> 'h HashMapOps \<Rightarrow> ReqHandle \<Rightarrow> 'h ServerContext \<Rightarrow> error + 'h ServerContext" where
  "req_handler cfg hm req_handle c =
     (case req_handler_record cfg hm req_handle c of
        Inl e \<Rightarrow> Inl e
      | Inr c' \<Rightarrow>
          if num_reqs_in_batch c' = of_nat kAppMaxServerBatch
          then drain_batch cfg hm c' else Inr c')"

subsection \<open>\<open>server_func\<close>\<close>

text \<open>
  Modelled from the spec: \<^verbatim>\<open>Rpc::run_event_loop_once\<close> is not among the given sources.
  By section 4.5 the endpoint invokes the handler registered for the request type, here
  \<open>req_handler\<close>, once for each request whose packets have all arrived; \<open>reqs\<close> are the
  handles of the requests that arrive in this iteration, in their order.
\<close>

fun run_event_loop_once ::
  "BuildConfig \<Rightarrow> 'h HashMapOps \<Rightarrow> ReqHandle list \<Rightarrow> 'h ServerContext \<Rightarrow> error + 'h ServerContext" where
  "run_event_loop_once cfg hm [] c = Inr c"
| "run_event_loop_once cfg hm (req_handle # reqs) c =
     (case req_handler cfg hm req_handle c of
        Inl e \<Rightarrow> Inl e
      | Inr c' \<Rightarrow> run_event_loop_once cfg hm reqs c')"

text \<open>The body of the inner loop of \<open>server_func\<close>.\<close>

definition server_func_iteration ::
  "BuildConfig \<Rightarrow> 'h HashMapOps \<Rightarrow> ReqHandle list \<Rightarrow> 'h ServerContext \<Rightarrow> error + 'h ServerContext" where
  "server_func_iteration cfg hm reqs c =
     (let num_reqs_tot_start = num_reqs_tot c in
      case run_event_loop_once cfg hm reqs c of
        Inl e \<Rightarrow> Inl e
      | Inr c' \<Rightarrow>
          if num_reqs_tot c' = num_reqs_tot_start \<and> 0 < num_reqs_in_batch c'
          then drain_batch cfg hm c' else Inr c')"

text \<open>
  The inner loop runs for one second of the cycle counter; \<open>iterations\<close> gives, for each
  iteration that fits into the second, the requests that arrive in it. The outer loop clears
  the response counter before and after each second; \<open>seconds\<close> are the seconds until the
  interrupt.
\<close>

fun server_func_inner ::
  "BuildConfig \<Rightarrow> 'h HashMapOps \<Rightarrow> ReqHandle list list \<Rightarrow> 'h ServerContext \<Rightarrow> error + 'h ServerContext" where
  "server_func_inner cfg hm [] c = Inr c"
| "server_func_inner cfg hm (reqs # iterations) c =
     (case server_func_iteration cfg hm reqs c of
        Inl e \<Rightarrow> Inl e
      | Inr c' \<Rightarrow> server_func_inner cfg hm iterations c')"

fun server_func_outer ::
  "BuildConfig \<Rightarrow> 'h HashMapOps \<Rightarrow> ReqHandle list list list \<Rightarrow> 'h ServerContext \<Rightarrow> error + 'h ServerContext" where
  "server_func_outer cfg hm [] c = Inr c"
| "server_func_outer cfg hm (iterations # seconds) c =
     (case server_func_inner cfg hm iterations (c\<lparr>num_resps_tot := 0\<rparr>) of
        Inl e \<Rightarrow> Inl e
      | Inr c' \<Rightarrow> server_func_outer cfg hm seconds (c'\<lparr>num_resps_tot := 0\<rparr>))"

text \<open>
  The context \<open>server_func\<close> starts from: the counters are zero by their member
  initialisers, the arrays have their declared length and hold whatever they hold.
\<close>

definition fresh_ServerContext :: "'h ServerContext \<Rightarrow> bool" where
  "fresh_ServerContext c =
     (num_reqs_tot c = 0 \<and> num_reqs_in_batch c = 0 \<and> num_resps_tot c = 0 \<and>
      enqueued_responses c = [] \<and>
      length (req_handle_arr c) = kAppMaxServerBatch \<and>
      length (is_set_arr c) = kAppMaxServerBatch \<and>
      length (key_ptr_arr c) = kAppMaxServerBatch \<and>
      length (val_ptr_arr c) = kAppMaxServerBatch \<and>
      length (keyhash_arr c) = kAppMaxServerBatch)"

text \<open>
  The invariant of the batch: the arrays keep their declared length and the counter is below
  the batch size whenever the handler is entered.
\<close>

definition arrays_ok :: "'h ServerContext \<Rightarrow> bool" where
  "arrays_ok c =
     (length (req_handle_arr c) = kAppMaxServerBatch \<and>
      length (is_set_arr c) = kAppMaxServerBatch \<and>
      length (key_ptr_arr c) = kAppMaxServerBatch \<and>
      length (val_ptr_arr c) = kAppMaxServerBatch \<and>
      length (keyhash_arr c) = kAppMaxServerBatch)"

definition batch_inv :: "'h ServerContext \<Rightarrow> bool" where
  "batch_inv c = (unat (num_reqs_in_batch c) < kAppMaxServerBatch \<and> arrays_ok c)"

text \<open>
  The requests of the batch, and the requests answered so far, by the identity of their
  handles and in the order of their arrival.
\<close>

definition pending :: "'h ServerContext \<Rightarrow> nat list" where
  "pending c = map handle_id (take (unat (num_reqs_in_batch c)) (req_handle_arr c))"

definition submitted :: "'h ServerContext \<Rightarrow> nat list" where
  "submitted c = map handle_id (enqueued_responses c)"

text \<open>
  A call stays in bounds when it returns with the invariant, or stops at a failed assertion;
  it does not when it reads or writes an array outside its bounds.
\<close>

definition stays_in_bounds :: "error + 'h ServerContext \<Rightarrow> bool" where
  "stays_in_bounds r = (case r of Inl e \<Rightarrow> e = assertion_failed | Inr c \<Rightarrow> batch_inv c)"

text \<open>
  A request the handler accepts: it has the size of a GET or of a SET, or assertions are
  compiled out.
\<close>

definition request_accepted :: "BuildConfig \<Rightarrow> ReqHandle \<Rightarrow> bool" where
  "request_accepted cfg h =
     (req_data_size (req_msgbuf h) = sizeof_Key \<or>
      req_data_size (req_msgbuf h) = sizeof_Key + sizeof_Value \<or>
      \<not> asserts_enabled cfg)"

text \<open>
  The context in which the handler is entered: after \<open>seconds\<close> rounds of the outer loop,
  \<open>iterations\<close> rounds of the inner loop of the round after, and the requests \<open>reqs\<close>
  handled in the iteration after those.
\<close>

definition handler_entry_state ::
  "BuildConfig \<Rightarrow> 'h HashMapOps \<Rightarrow> ReqHandle list list list \<Rightarrow> ReqHandle list list \<Rightarrow> ReqHandle list
     \<Rightarrow> 'h ServerContext \<Rightarrow> error + 'h ServerContext" where
  "handler_entry_state cfg hm seconds iterations reqs c0 =
     (case server_func_outer cfg hm seconds c0 of
        Inl e \<Rightarrow> Inl e
      | Inr c1 \<Rightarrow>
          (case server_func_inner cfg hm iterations (c1\<lparr>num_resps_tot := 0\<rparr>) of
             Inl e \<Rightarrow> Inl e
           | Inr c2 \<Rightarrow> run_event_loop_once cfg hm reqs c2))"

text \<open>
  Concrete inputs for the examples: a table on which every operation succeeds, a GET and a SET
  request, and a context as \<open>server_func\<close> creates it.
\<close>

definition example_hm :: "unit HashMapOps" where
  "example_hm =
     \<lparr>get_hash = (\<lambda>k. case k of Key a b \<Rightarrow> a),
      batch_op_drain_helper =
        (\<lambda>h is_set hashes keys ptrs n. (\<lambda>i. True, \<lambda>i. Value 0 0 0 0, h))\<rparr>"

definition get_request :: "nat \<Rightarrow> ReqHandle" where
  "get_request i =
     \<lparr>handle_id = i,
      req_msgbuf = \<lparr>req_data_size = 16, req_key = Key 1 0, req_value = Value 0 0 0 0\<rparr>,
      prealloc_used = False, pre_resp_size = 0, pre_resp_buf = resp_unwritten\<rparr>"

definition set_request :: "nat \<Rightarrow> ReqHandle" where
  "set_request i =
     \<lparr>handle_id = i,
      req_msgbuf = \<lparr>req_data_size = 48, req_key = Key 1 0, req_value = Value 1 0 0 0\<rparr>,
      prealloc_used = False, pre_resp_size = 0, pre_resp_buf = resp_unwritten\<rparr>"

definition example_ctx :: "unit ServerContext" where
  "example_ctx =
     \<lparr>num_reqs_tot = 0, hashmap = (), num_reqs_in_batch = 0,
      req_handle_arr = replicate 16 (get_request 0),
      is_set_arr = replicate 16 False,
      key_ptr_arr = replicate 16 (Key 0 0),
      val_ptr_arr = replicate 16 (resp_buf_of 0),
      keyhash_arr = replicate 16 0,
      num_resps_tot = 0, enqueued_responses = []\<rparr>"


section \<open>The endpoint's interface\<close>

text \<open>
  Modelled from the spec: the endpoint operations \<open>create_session\<close>, \<open>destroy_session\<close>,
  \<open>run_event_loop\<close>, the destructor, \<open>enqueue_request\<close> and the client side of the datapath
  are members of \<^verbatim>\<open>Rpc\<close> that are not among the given sources (only their callers in the
  tests and applications are). The definitions of this section follow sections 3, 4.3, 4.5,
  5 and 7 of the specification.
\<close>

subsection \<open>Sessions and the event loop\<close>

text \<open>Where a call of the interface comes from.\<close>

datatype Caller = user_code | request_handler | continuation

datatype api_error =
    FORBIDDEN_CONTEXT | OUT_OF_SESSIONS | BAD_URI | INVALID_SESSION
  | NO_CREDITS | SESSION_NOT_CONNECTED | SLOT_BUSY

record EndpointConfig =
  max_sessions :: nat
  window_size :: nat
  max_msg_size :: nat
  mtu :: nat
  valid_uri :: "string \<Rightarrow> bool"

text \<open>
  Modelled from the spec: \<open>create_session\<close> (section 4.3, \<open>new_client_session\<close>) allocates an
  entry of the session table in state connect-in-progress and emits a connect request;
  errors \<open>OUT_OF_SESSIONS\<close> and \<open>BAD_URI\<close>. Session management from a request handler or a
  continuation is refused with \<open>FORBIDDEN_CONTEXT\<close>, which the tests read as \<^verbatim>\<open>-EPERM\<close>.
\<close>

definition create_session ::
  "EndpointConfig \<Rightarrow> Caller \<Rightarrow> string \<Rightarrow> 8 word \<Rightarrow> Rpc \<Rightarrow> (api_error + nat) \<times> Rpc" where
  "create_session ecfg caller remote_uri remote_rpc_id rpc =
     (if caller \<noteq> user_code then (Inl FORBIDDEN_CONTEXT, rpc)
      else if \<not> valid_uri ecfg remote_uri then (Inl BAD_URI, rpc)
      else if max_sessions ecfg \<le> length (session_vec rpc) then (Inl OUT_OF_SESSIONS, rpc)
      else
        let local_num = length (session_vec rpc);
            session = \<lparr>role = kClient, state = kConnectInProgress,
                       local_session_num = local_num,
                       server_hostname = remote_uri, server_rpc_id = remote_rpc_id,
                       remote_session_num = None,
                       credits = window_size ecfg, seq_counter = 0,
                       slots = replicate (window_size ecfg) None\<rparr>
        in (Inr local_num,
            enqueue_sm_req_st (rpc\<lparr>session_vec := session_vec rpc @ [Some session]\<rparr>)
              session kConnectReq 0))"

text \<open>
  Modelled from the spec: \<open>destroy_session\<close> (section 4.3). A connected session goes to
  disconnect-in-progress and a disconnect request is emitted; a session in state error goes
  back to idle, its entry is cleared. Illegal from a request handler or a continuation:
  \<open>FORBIDDEN_CONTEXT\<close>.
\<close>

definition destroy_session :: "Caller \<Rightarrow> int \<Rightarrow> Rpc \<Rightarrow> (api_error + nat) \<times> Rpc" where
  "destroy_session caller session_num rpc =
     (if caller \<noteq> user_code then (Inl FORBIDDEN_CONTEXT, rpc)
      else if \<not> is_usr_session_num_in_range rpc session_num then (Inl INVALID_SESSION, rpc)
      else case session_vec rpc ! nat session_num of
             None \<Rightarrow> (Inl INVALID_SESSION, rpc)
           | Some session \<Rightarrow>
               if state session = kConnected
               then (Inr 0,
                     enqueue_sm_req_st
                       (rpc\<lparr>session_vec := (session_vec rpc)
                               [nat session_num := Some (session\<lparr>state := kDisconnectInProgress\<rparr>)]\<rparr>)
                       session kDisconnectReq 0)
               else if state session = kError
               then (Inr 0, rpc\<lparr>session_vec := (session_vec rpc)[nat session_num := None]\<rparr>)
               else (Inl INVALID_SESSION, rpc))"

text \<open>
  Modelled from the spec: \<open>run_event_loop\<close> (section 5) and the destructor (section 3).
  Entering the event loop from a request handler or a continuation is fatal; the check is
  one of the datapath checks. \<open>work\<close> is what the loop does to the endpoint when it runs.
  Destruction from inside a request handler or a continuation is fatal; by the tests, with
  or without datapath checks.
\<close>

definition run_event_loop ::
  "BuildConfig \<Rightarrow> Caller \<Rightarrow> (Rpc \<Rightarrow> Rpc) \<Rightarrow> Rpc \<Rightarrow> (error + unit) \<times> Rpc" where
  "run_event_loop cfg caller work rpc =
     (if caller \<noteq> user_code \<and> kDatapathChecks cfg then (Inl process_abort, rpc)
      else (Inr (), work rpc))"

definition delete_rpc :: "Caller \<Rightarrow> Rpc \<Rightarrow> error + unit" where
  "delete_rpc caller rpc = (if caller \<noteq> user_code then Inl process_abort else Inr ())"

subsection \<open>The client side of the datapath\<close>

text \<open>
  Modelled from the spec: what the endpoint hands to a continuation, which is the response
  handle, the context of the endpoint and the tag (section 4.5, client completion). There is
  no other argument.
\<close>

record ContInvocation =
  inv_cont :: nat
  inv_resp :: MsgBuffer
  inv_context :: nat
  inv_tag :: "64 word"

definition get_data_size :: "MsgBuffer \<Rightarrow> nat" where
  "get_data_size m = length (buf m)"

definition lookup_session :: "Rpc \<Rightarrow> int \<Rightarrow> Session option" where
  "lookup_session rpc session_num =
     (if is_usr_session_num_in_range rpc session_num
      then session_vec rpc ! nat session_num else None)"

definition store_session :: "Rpc \<Rightarrow> int \<Rightarrow> Session \<Rightarrow> Rpc" where
  "store_session rpc session_num session =
     rpc\<lparr>session_vec := (session_vec rpc)[nat session_num := Some session]\<rparr>"

fun first_free :: "Exchange option list \<Rightarrow> nat option" where
  "first_free [] = None"
| "first_free (None # xs) = Some 0"
| "first_free (Some x # xs) = map_option Suc (first_free xs)"

text \<open>
  Modelled from the spec: \<open>enqueue_request\<close> (section 4.5, client issue). Preconditions: the
  caller is the owner thread and the request is no larger than the configured maximum
  (violations are usage errors, fatal); the session is connected, it has a credit and a free
  slot (otherwise \<open>SESSION_NOT_CONNECTED\<close>, \<open>NO_CREDITS\<close>, \<open>SLOT_BUSY\<close>). Effect: a free slot
  is selected and holds the exchange, the sequence is stamped, a credit is consumed, the
  first packet goes onto the TX list. Success returns 0.
\<close>

definition enqueue_request ::
  "EndpointConfig \<Rightarrow> nat \<Rightarrow> int \<Rightarrow> 8 word \<Rightarrow> MsgBuffer \<Rightarrow> MsgBuffer \<Rightarrow> nat \<Rightarrow> 64 word \<Rightarrow> Rpc
     \<Rightarrow> (error + api_error + nat) \<times> Rpc" where
  "enqueue_request ecfg tid session_num req_type req resp cont tag rpc =
     (if \<not> in_creator rpc tid \<or> max_msg_size ecfg < get_data_size req
      then (Inl process_abort, rpc)
      else case lookup_session rpc session_num of
             None \<Rightarrow> (Inr (Inl SESSION_NOT_CONNECTED), rpc)
           | Some session \<Rightarrow>
               if \<not> is_connected session then (Inr (Inl SESSION_NOT_CONNECTED), rpc)
               else if credits session = 0 then (Inr (Inl NO_CREDITS), rpc)
               else (case first_free (slots session) of
                      None \<Rightarrow> (Inr (Inl SLOT_BUSY), rpc)
                    | Some i \<Rightarrow>
                        let x = \<lparr>x_req_type = req_type, x_req = req, x_resp = resp,
                                 x_cont = cont, x_tag = tag, x_rx_pkts = 0\<rparr>;
                            session' = session\<lparr>slots := list_update (slots session) i (Some x),
                                         credits := credits session - 1,
                                         seq_counter := seq_counter session + 1\<rparr>;
                            rpc' = store_session rpc session_num session'
                        in (Inr (Inr 0),
                            rpc'\<lparr>tx_list := tx_list rpc' @ [(nat session_num, i, 0)]\<rparr>)))"

text \<open>
  Modelled from the spec: the packets of a response. A response of \<open>size\<close> bytes travels as
  \<open>\<lceil>size / MTU\<rceil>\<close> packets with indices \<open>0 .. N - 1\<close>, each carrying up to MTU bytes of
  the payload (sections 3 and 4.5).
\<close>

record RespPkt =
  p_idx :: nat
  p_total :: nat
  p_payload :: "8 word list"

definition num_pkts :: "nat \<Rightarrow> nat \<Rightarrow> nat" where
  "num_pkts m sz = (sz + m - 1) div m"

definition segment :: "nat \<Rightarrow> 8 word list \<Rightarrow> RespPkt list" where
  "segment m data =
     map (\<lambda>i. \<lparr>p_idx = i, p_total = num_pkts m (length data),
                p_payload = take m (drop (i * m) data)\<rparr>)
       [0 ..< num_pkts m (length data)]"

text \<open>
  Modelled from the spec: receipt of a response packet for a slot (client completion). The
  packet expected next is written into the response buffer; on the final packet the
  continuation of the slot is invoked with the response handle, the context and the tag. The
  step comprises the run of the continuation: after it the slot is free and the credit
  returned. A packet for an idle slot, or not the one expected, is dropped.
\<close>

definition rx_resp_pkt ::
  "int \<Rightarrow> nat \<Rightarrow> RespPkt \<Rightarrow> Rpc \<Rightarrow> ContInvocation option \<times> Rpc" where
  "rx_resp_pkt session_num slot pkt rpc =
     (case lookup_session rpc session_num of
        None \<Rightarrow> (None, rpc)
      | Some session \<Rightarrow>
          if length (slots session) \<le> slot then (None, rpc)
          else (case slots session ! slot of
                 None \<Rightarrow> (None, rpc)
               | Some x \<Rightarrow>
                   if p_idx pkt \<noteq> x_rx_pkts x \<or> p_total pkt \<le> p_idx pkt then (None, rpc)
                   else
                     let resp = (x_resp x)\<lparr>buf := (if p_idx pkt = 0 then [] else buf (x_resp x))
                                                    @ p_payload pkt\<rparr>
                     in if Suc (p_idx pkt) = p_total pkt
                        then (Some \<lparr>inv_cont = x_cont x, inv_resp = resp,
                                    inv_context = rpc_context rpc, inv_tag = x_tag x\<rparr>,
                              store_session rpc session_num
                                (session\<lparr>slots := (slots session)[slot := None],
                                         credits := credits session + 1\<rparr>))
                        else (None,
                              store_session rpc session_num
                                (session\<lparr>slots := (slots session)
                                    [slot := Some (x\<lparr>x_resp := resp,
                                                     x_rx_pkts := Suc (x_rx_pkts x)\<rparr>)]\<rparr>))))"

text \<open>
  Modelled from the spec: failure (sections 4.5, 5 and 7). When the retransmission bound is
  exceeded or the session fails otherwise, the session goes to state error; when a destroyed
  session has finished its disconnect, it is gone. In both cases the continuation of every
  exchange in flight on the session is invoked with an empty response buffer. The invocations
  carry the number of their slot.
\<close>

definition failure_invocation :: "Rpc \<Rightarrow> Exchange \<Rightarrow> ContInvocation" where
  "failure_invocation rpc x =
     \<lparr>inv_cont = x_cont x, inv_resp = (x_resp x)\<lparr>buf := []\<rparr>,
      inv_context = rpc_context rpc, inv_tag = x_tag x\<rparr>"

definition in_flight :: "Session \<Rightarrow> (nat \<times> Exchange) list" where
  "in_flight session =
     concat (map (\<lambda>(i, s). case s of None \<Rightarrow> [] | Some x \<Rightarrow> [(i, x)])
                 (zip [0 ..< length (slots session)] (slots session)))"

definition session_failed :: "int \<Rightarrow> Rpc \<Rightarrow> (nat \<times> ContInvocation) list \<times> Rpc" where
  "session_failed session_num rpc =
     (case lookup_session rpc session_num of
        None \<Rightarrow> ([], rpc)
      | Some session \<Rightarrow>
          (map (\<lambda>(i, x). (i, failure_invocation rpc x)) (in_flight session),
           store_session rpc session_num
             (session\<lparr>state := kError,
                      slots := replicate (length (slots session)) None,
                      credits := credits session + length (in_flight session)\<rparr>)))"

definition session_disconnected :: "int \<Rightarrow> Rpc \<Rightarrow> (nat \<times> ContInvocation) list \<times> Rpc" where
  "session_disconnected session_num rpc =
     (case lookup_session rpc session_num of
        None \<Rightarrow> ([], rpc)
      | Some session \<Rightarrow>
          (map (\<lambda>(i, x). (i, failure_invocation rpc x)) (in_flight session),
           rpc\<lparr>session_vec := (session_vec rpc)[nat session_num := None]\<rparr>))"

text \<open>
  Modelled from the spec: the events of a client endpoint and what they do; a run returns the
  continuations invoked, each with its session and slot, in their order.
\<close>

datatype ClientEvent =
    ev_enqueue_request nat int "8 word" MsgBuffer MsgBuffer nat "64 word"
  | ev_rx_resp_pkt int nat RespPkt
  | ev_session_failed int
  | ev_session_disconnected int

fun client_step ::
  "EndpointConfig \<Rightarrow> ClientEvent \<Rightarrow> Rpc \<Rightarrow> (int \<times> nat \<times> ContInvocation) list \<times> Rpc" where
  "client_step ecfg (ev_enqueue_request tid sn ty req resp cont tag) rpc =
     ([], snd (enqueue_request ecfg tid sn ty req resp cont tag rpc))"
| "client_step ecfg (ev_rx_resp_pkt sn slot pkt) rpc =
     (case rx_resp_pkt sn slot pkt rpc of
        (None, rpc') \<Rightarrow> ([], rpc')
      | (Some ci, rpc') \<Rightarrow> ([(sn, slot, ci)], rpc'))"
| "client_step ecfg (ev_session_failed sn) rpc =
     (case session_failed sn rpc of
        (invs, rpc') \<Rightarrow> (map (\<lambda>(i, ci). (sn, i, ci)) invs, rpc'))"
| "client_step ecfg (ev_session_disconnected sn) rpc =
     (case session_disconnected sn rpc of
        (invs, rpc') \<Rightarrow> (map (\<lambda>(i, ci). (sn, i, ci)) invs, rpc'))"

fun client_run ::
  "EndpointConfig \<Rightarrow> ClientEvent list \<Rightarrow> Rpc \<Rightarrow> (int \<times> nat \<times> ContInvocation) list \<times> Rpc" where
  "client_run ecfg [] rpc = ([], rpc)"
| "client_run ecfg (ev # evs) rpc =
     (case client_step ecfg ev rpc of
        (invs, rpc') \<Rightarrow>
          (case client_run ecfg evs rpc' of
             (invs', rpc'') \<Rightarrow> (invs @ invs', rpc'')))"

text \<open>The slot of a session, and the first invocation of a run for a given slot.\<close>

definition slot_of :: "Rpc \<Rightarrow> int \<Rightarrow> nat \<Rightarrow> Exchange option" where
  "slot_of rpc session_num i =
     (case lookup_session rpc session_num of
        None \<Rightarrow> None
      | Some session \<Rightarrow> if i < length (slots session) then slots session ! i else None)"

definition first_invocation ::
  "int \<Rightarrow> nat \<Rightarrow> (int \<times> nat \<times> ContInvocation) list \<Rightarrow> ContInvocation option" where
  "first_invocation session_num i invs =
     map_option (\<lambda>(s, j, ci). ci) (find (\<lambda>(s, j, ci). s = session_num \<and> j = i) invs)"

text \<open>
  For the statements about runs: a slot holds a continuation and a tag; an invocation
  matches them (and the context of the endpoint); an entry of a run is for a given slot;
  \<open>seg m data k\<close> is the \<open>k\<close>-th packet of \<open>segment m data\<close>.
\<close>

definition slot_holds :: "Rpc \<Rightarrow> int \<Rightarrow> nat \<Rightarrow> nat \<Rightarrow> 64 word \<Rightarrow> bool" where
  "slot_holds rpc session_num i cont tag =
     (case slot_of rpc session_num i of
        None \<Rightarrow> False
      | Some x \<Rightarrow> x_cont x = cont \<and> x_tag x = tag)"

definition matches :: "Rpc \<Rightarrow> nat \<Rightarrow> 64 word \<Rightarrow> ContInvocation \<Rightarrow> bool" where
  "matches rpc cont tag ci =
     (inv_cont ci = cont \<and> inv_tag ci = tag \<and> inv_context ci = rpc_context rpc)"

definition for_slot :: "int \<Rightarrow> nat \<Rightarrow> (int \<times> nat \<times> ContInvocation) \<Rightarrow> bool" where
  "for_slot sn i e = (case e of (s, j, ci) \<Rightarrow> s = sn \<and> j = i)"

definition seg :: "nat \<Rightarrow> 8 word list \<Rightarrow> nat \<Rightarrow> RespPkt" where
  "seg m data k = \<lparr>p_idx = k, p_total = num_pkts m (length data),
                   p_payload = take m (drop (k * m) data)\<rparr>"

section \<open>The restriction tests: \<^verbatim>\<open>tests/test_api_restrictions.cc\<close>\<close>

datatype AppDeathMode =
    kReqHandlerRunsEventLoop | kReqHandlerDeletesRpc
  | kContFuncRunsEventLoop | kContFuncDeletesRpc

datatype test_result = test_passed | test_failed

text \<open>
  \<^verbatim>\<open>ASSERT_DEATH(statement, ".*")\<close> holds when the statement ends the process;
  \<^verbatim>\<open>ASSERT_EQ\<close> and \<^verbatim>\<open>ASSERT_DEATH\<close> leave the function with a failure when they do
  not hold.
\<close>

definition ASSERT_DEATH :: "error + 'a \<Rightarrow> bool" where
  "ASSERT_DEATH r =
     (case r of Inl e \<Rightarrow> e = process_abort \<or> e = assertion_failed | Inr _ \<Rightarrow> False)"

text \<open>
  The request handler and the continuation of the test, \<^verbatim>\<open>req_handler\<close> and
  \<^verbatim>\<open>cont_func\<close> in the source. The assertions on the test's own
  context at their start, the response the handler enqueues at its end and the release of
  the response by the continuation are left out. \<open>kAppServerRpcId\<close> and the duration of the
  event loop come from \<^verbatim>\<open>test_basics.h\<close>; the first is a parameter, the second is part of
  \<open>work\<close>.
\<close>

definition test_req_handler ::
  "BuildConfig \<Rightarrow> EndpointConfig \<Rightarrow> 8 word \<Rightarrow> AppDeathMode \<Rightarrow> (Rpc \<Rightarrow> Rpc) \<Rightarrow> Rpc
     \<Rightarrow> test_result \<times> Rpc" where
  "test_req_handler cfg ecfg kAppServerRpcId app_death_mode work rpc =
     (case create_session ecfg request_handler ''localhost'' kAppServerRpcId rpc of
        (session_num, rpc1) \<Rightarrow>
          if session_num \<noteq> Inl FORBIDDEN_CONTEXT then (test_failed, rpc1)
          else
            (case destroy_session request_handler 0 rpc1 of
               (ret, rpc2) \<Rightarrow>
                 if ret \<noteq> Inl FORBIDDEN_CONTEXT then (test_failed, rpc2)
                 else if app_death_mode = kReqHandlerRunsEventLoop \<and> kDatapathChecks cfg \<and>
                         \<not> ASSERT_DEATH (fst (run_event_loop cfg request_handler work rpc2))
                 then (test_failed, rpc2)
                 else if app_death_mode = kReqHandlerDeletesRpc \<and>
                         \<not> ASSERT_DEATH (delete_rpc request_handler rpc2)
                 then (test_failed, rpc2)
                 else (test_passed, rpc2)))"

definition test_cont_func ::
  "BuildConfig \<Rightarrow> AppDeathMode \<Rightarrow> (Rpc \<Rightarrow> Rpc) \<Rightarrow> Rpc \<Rightarrow> nat \<Rightarrow> test_result \<times> nat" where
  "test_cont_func cfg app_death_mode work rpc num_rpc_resps =
     (if app_death_mode = kContFuncRunsEventLoop \<and> kDatapathChecks cfg \<and>
         \<not> ASSERT_DEATH (fst (run_event_loop cfg continuation work rpc))
      then (test_failed, num_rpc_resps)
      else if app_death_mode = kContFuncDeletesRpc \<and>
              \<not> ASSERT_DEATH (delete_rpc continuation rpc)
      then (test_failed, num_rpc_resps)
      else (test_passed, num_rpc_resps + 1))"

section \<open>The consensus client: \<^verbatim>\<open>apps/consensus/client.h\<close>\<close>

text \<open>
  The response type, the request and response layouts, the number of keys and the mapping
  from machines to Raft node identifiers are declared in \<^verbatim>\<open>consensus.h\<close>, which is not
  among the given sources; they are parameters. \<open>write_req k\<close> writes \<open>k\<close> as first key and
  first value into the bytes of the request buffer, \<open>decode_resp\<close> is the cast of the
  response bytes to \<open>client_resp_t\<close>. The latency bookkeeping of the continuation (cycle
  counter, floating point) and its printing and sleeping are left out.
\<close>

datatype ClientRespType = kSuccess | kFailRedirect | kFailTryAgain

record client_resp_t =
  resp_type :: ClientRespType
  leader_node_id :: int

record connection_t =
  conn_session_num :: int
  conn_disconnected :: bool

record ConsensusParams =
  num_raft_servers :: nat
  node_id_of :: "nat \<Rightarrow> int"
  kAppNumKeys :: "64 word"
  kClientReq :: "8 word"
  client_cont_ptr :: nat
  write_req :: "64 word \<Rightarrow> 8 word list \<Rightarrow> 8 word list"
  decode_resp :: "8 word list \<Rightarrow> client_resp_t"

record ConsensusClient =
  leader_idx :: nat
  num_resps :: "64 word"
  last_key :: "64 word"
  conn_vec :: "connection_t list"
  cl_req_msgbuf :: MsgBuffer
  cl_resp_msgbuf :: MsgBuffer

text \<open>
  \<open>change_leader_to_any\<close>: the loop over \<open>i = 1, \<dots>, num_raft_servers - 1\<close> takes the first
  connection that is not disconnected; when there is none the process exits. Indexing
  \<open>conn_vec\<close> beyond its size has no meaning.
\<close>

fun change_leader_scan :: "nat \<Rightarrow> nat \<Rightarrow> nat list \<Rightarrow> ConsensusClient \<Rightarrow> error + ConsensusClient" where
  "change_leader_scan n cur_leader_idx [] c = Inl process_exit"
| "change_leader_scan n cur_leader_idx (i # is) c =
     (let next_leader_idx = (cur_leader_idx + i) mod n in
      if length (conn_vec c) \<le> next_leader_idx then Inl undefined_behaviour
      else if \<not> conn_disconnected (conn_vec c ! next_leader_idx)
      then Inr (c\<lparr>leader_idx := next_leader_idx\<rparr>)
      else change_leader_scan n cur_leader_idx is c)"

definition change_leader_to_any :: "ConsensusParams \<Rightarrow> ConsensusClient \<Rightarrow> error + ConsensusClient" where
  "change_leader_to_any P c =
     change_leader_scan (num_raft_servers P) (leader_idx c) [1 ..< num_raft_servers P] c"

text \<open>
  \<open>change_leader_to_node\<close>: the first machine with the given node identifier becomes the
  leader, unless its connection is disconnected (the result is then \<open>False\<close>); when no machine
  has the identifier the process exits.
\<close>

fun change_leader_find ::
  "ConsensusParams \<Rightarrow> int \<Rightarrow> nat list \<Rightarrow> ConsensusClient \<Rightarrow> error + bool \<times> ConsensusClient" where
  "change_leader_find P node_id [] c = Inl process_exit"
| "change_leader_find P node_id (i # is) c =
     (if node_id_of P i = node_id
      then (if length (conn_vec c) \<le> i then Inl undefined_behaviour
            else if conn_disconnected (conn_vec c ! i) then Inr (False, c)
            else Inr (True, c\<lparr>leader_idx := i\<rparr>))
      else change_leader_find P node_id is c)"

definition change_leader_to_node ::
  "ConsensusParams \<Rightarrow> int \<Rightarrow> ConsensusClient \<Rightarrow> error + bool \<times> ConsensusClient" where
  "change_leader_to_node P node_id c =
     change_leader_find P node_id [0 ..< num_raft_servers P] c"

text \<open>
  \<open>send_req_one\<close>: the next key is written into the request buffer and the request is
  enqueued on the session of the current leader, with \<open>client_cont\<close> as continuation and tag
  0; the result of \<open>enqueue_request\<close> is asserted to be 0.
\<close>

definition send_req_one ::
  "BuildConfig \<Rightarrow> EndpointConfig \<Rightarrow> ConsensusParams \<Rightarrow> nat \<Rightarrow> ConsensusClient \<Rightarrow> Rpc
     \<Rightarrow> error + ConsensusClient \<times> Rpc" where
  "send_req_one cfg ecfg P tid c rpc =
     (let req = (cl_req_msgbuf c)\<lparr>buf := write_req P (last_key c) (buf (cl_req_msgbuf c))\<rparr>;
          next_key = last_key c + 1;
          c1 = c\<lparr>cl_req_msgbuf := req,
                 last_key := (if next_key = kAppNumKeys P then 0 else next_key)\<rparr>
      in if length (conn_vec c1) \<le> leader_idx c1 then Inl undefined_behaviour
         else
           case enqueue_request ecfg tid (conn_session_num (conn_vec c1 ! leader_idx c1))
                  (kClientReq P) req (cl_resp_msgbuf c1) (client_cont_ptr P) 0 rpc of
             (Inl e, rpc') \<Rightarrow> Inl e
           | (Inr ret, rpc') \<Rightarrow>
               if asserts_enabled cfg \<and> ret \<noteq> Inr 0 then Inl assertion_failed
               else Inr (c1, rpc'))"

text \<open>
  The part of \<open>client_cont\<close> that looks at the response (lines 115 to 164): a response buffer
  with data is a response of the server and is read; an empty one is a continuation with
  failure, and the client turns to another server.
\<close>

definition client_cont_response ::
  "ConsensusParams \<Rightarrow> ConsensusClient \<Rightarrow> error + ConsensusClient" where
  "client_cont_response P c =
     (if 0 < get_data_size (cl_resp_msgbuf c)
      then (let client_resp = decode_resp P (buf (cl_resp_msgbuf c)) in
            case resp_type client_resp of
              kSuccess \<Rightarrow> Inr c
            | kFailRedirect \<Rightarrow>
                (case change_leader_to_node P (leader_node_id client_resp) c of
                   Inl e \<Rightarrow> Inl e
                 | Inr (success, c') \<Rightarrow> Inr c')
            | kFailTryAgain \<Rightarrow> Inr c)
      else change_leader_to_any P c)"

text \<open>
  \<open>client_cont\<close>, called by the endpoint with the response handle, the context and the tag.
  The response buffer of the handle is the client's own \<open>resp_msgbuf\<close>, which the endpoint
  has written. \<^verbatim>\<open>release_response\<close> finds the slot already free in the model of the
  endpoint above.
\<close>

definition client_cont ::
  "BuildConfig \<Rightarrow> EndpointConfig \<Rightarrow> ConsensusParams \<Rightarrow> nat \<Rightarrow> ContInvocation
     \<Rightarrow> ConsensusClient \<Rightarrow> Rpc \<Rightarrow> error + ConsensusClient \<times> Rpc" where
  "client_cont cfg ecfg P tid ci c rpc =
     (let c1 = c\<lparr>cl_resp_msgbuf := inv_resp ci, num_resps := num_resps c + 1\<rparr>;
          c2 = (if num_resps c1 = 10000 then c1\<lparr>num_resps := 0\<rparr> else c1)
      in case client_cont_response P c2 of
           Inl e \<Rightarrow> Inl e
         | Inr c3 \<Rightarrow> send_req_one cfg ecfg P tid c3 rpc)"

section \<open>The key-value client: \<^verbatim>\<open>apps/persistent_kv/persistent_kv.cc\<close>\<close>

datatype Workload = kGets | kSets | k5050

definition kAppMaxWindowSize :: nat where
  "kAppMaxWindowSize = 32"

definition kAppReqType :: "8 word" where
  "kAppReqType = 1"

definition fastrange64 :: "64 word \<Rightarrow> 64 word \<Rightarrow> 64 word" where
  "fastrange64 rand n = of_nat ((unat rand * unat n) div 2 ^ 64)"

text \<open>
  The client's context: the per-slot arrays of the window and the counters. The two casts
  into the request buffer are parameters: \<open>write_kv k\<close> writes \<open>k\<close> as first fragment of the
  key and of the value into the bytes, \<open>read_key\<close> reads the key back; so are the casts of
  the response bytes, \<open>read_val_frag0\<close> and \<open>read_result\<close>. The random numbers
  drawn, the session chosen and the address of \<open>app_cont_func\<close> are parameters too; the
  time stamps are left out.
\<close>

record KvParams =
  keys_per_server_thread :: "64 word"
  app_cont_func_ptr :: nat
  write_kv :: "64 word \<Rightarrow> 8 word list \<Rightarrow> 8 word list"
  read_key :: "8 word list \<Rightarrow> Key"
  read_val_frag0 :: "8 word list \<Rightarrow> 64 word"
  read_result :: "8 word list \<Rightarrow> Result"

record ClientContext =
  kv_num_resps :: "64 word"
  workload :: Workload
  kv_key_arr :: "Key list"
  kv_is_set_arr :: "bool list"
  kv_req_msgbuf :: "MsgBuffer list"
  kv_resp_msgbuf :: "MsgBuffer list"
  num_get_reqs :: "64 word"
  num_get_success :: "64 word"
  num_set_reqs :: "64 word"
  num_set_success :: "64 word"

text \<open>
  \<open>send_req\<close> for window slot \<open>ws_i\<close>; \<open>rand1\<close> and \<open>rand2\<close> are the two numbers the generator
  would give (the first is drawn only by the mixed workload). The result of
  \<open>enqueue_request\<close> is not looked at.
\<close>

definition send_req ::
  "EndpointConfig \<Rightarrow> KvParams \<Rightarrow> nat \<Rightarrow> int \<Rightarrow> 64 word \<Rightarrow> 64 word \<Rightarrow> nat \<Rightarrow> ClientContext \<Rightarrow> Rpc
     \<Rightarrow> error + ClientContext \<times> Rpc" where
  "send_req ecfg P tid session rand1 rand2 ws_i c rpc =
     (if kAppMaxWindowSize \<le> ws_i then Inl undefined_behaviour
      else
        let is_set = (case workload c of
                        kGets \<Rightarrow> False | kSets \<Rightarrow> True | k5050 \<Rightarrow> rand1 mod 2 = 0);
            c1 = (if is_set then c\<lparr>num_set_reqs := num_set_reqs c + 1\<rparr>
                  else c\<lparr>num_get_reqs := num_get_reqs c + 1\<rparr>);
            k = 1 + fastrange64 rand2 (keys_per_server_thread P);
            bytes = write_kv P k (buf (kv_req_msgbuf c ! ws_i));
            req_size = (if is_set then unat (sizeof_Key + sizeof_Value) else unat sizeof_Key);
            req = (kv_req_msgbuf c ! ws_i)\<lparr>buf := take req_size bytes\<rparr>;
            c2 = c1\<lparr>kv_is_set_arr := list_update (kv_is_set_arr c1) ws_i is_set,
                    kv_key_arr := list_update (kv_key_arr c1) ws_i (read_key P bytes),
                    kv_req_msgbuf := list_update (kv_req_msgbuf c1) ws_i req\<rparr>
        in case enqueue_request ecfg tid session kAppReqType req (kv_resp_msgbuf c2 ! ws_i)
                  (app_cont_func_ptr P) (of_nat ws_i) rpc of
             (Inl e, rpc') \<Rightarrow> Inl e
           | (Inr ret, rpc') \<Rightarrow> Inr (c2, rpc'))"

text \<open>
  \<open>app_cont_func\<close>, called by the endpoint with the response handle, the context and the tag
  \<open>ws_i\<close>: the tag selects the slot of the window whose request is answered, and the slot is
  used again for the next request.
\<close>

definition app_cont_func ::
  "BuildConfig \<Rightarrow> EndpointConfig \<Rightarrow> KvParams \<Rightarrow> nat \<Rightarrow> int \<Rightarrow> 64 word \<Rightarrow> 64 word
     \<Rightarrow> ContInvocation \<Rightarrow> ClientContext \<Rightarrow> Rpc \<Rightarrow> error + ClientContext \<times> Rpc" where
  "app_cont_func cfg ecfg P tid session rand1 rand2 ci c rpc =
     (let ws_i = unat (inv_tag ci);
          resp = inv_resp ci
      in if kAppMaxWindowSize \<le> ws_i then Inl undefined_behaviour
         else
           case
             (if kv_is_set_arr c ! ws_i
              then (if asserts_enabled cfg \<and> get_data_size resp \<noteq> unat sizeof_Result
                    then Inl assertion_failed
                    else if read_result P (buf resp) = kSetSuccess
                    then Inr (c\<lparr>num_set_success := num_set_success c + 1\<rparr>)
                    else Inr c)
              else (if asserts_enabled cfg \<and> get_data_size resp \<noteq> unat sizeof_Value \<and>
                       get_data_size resp \<noteq> unat sizeof_Result
                    then Inl assertion_failed
                    else if get_data_size resp = unat sizeof_Value
                    then (if asserts_enabled cfg \<and>
                             read_val_frag0 P (buf resp) \<noteq>
                               (case kv_key_arr c ! ws_i of Key frag0 frag1 \<Rightarrow> frag0)
                          then Inl assertion_failed
                          else Inr (c\<lparr>num_get_success := num_get_success c + 1\<rparr>))
                    else Inr c))
           of
             Inl e \<Rightarrow> Inl e
           | Inr c1 \<Rightarrow>
               send_req ecfg P tid session rand1 rand2 ws_i
                 (c1\<lparr>kv_num_resps := kv_num_resps c1 + 1,
                     kv_resp_msgbuf := list_update (kv_resp_msgbuf c1) ws_i resp\<rparr>) rpc)"

section \<open>Concrete inputs\<close>

text \<open>
  An endpoint configuration, a client endpoint with one exchange in flight, and contexts and
  parameters of the two clients, for the examples.
\<close>

definition example_ecfg :: EndpointConfig where
  "example_ecfg =
     \<lparr>max_sessions = 4, window_size = 2, max_msg_size = 64, mtu = 4,
      valid_uri = (\<lambda>uri. uri \<noteq> [])\<rparr>"

definition example_exchange :: Exchange where
  "example_exchange =
     \<lparr>x_req_type = 1, x_req = \<lparr>max_data_size = 8, buf = [7]\<rparr>,
      x_resp = \<lparr>max_data_size = 8, buf = []\<rparr>, x_cont = 99, x_tag = 5, x_rx_pkts = 0\<rparr>"

definition example_client_rpc :: Rpc where
  "example_client_rpc =
     example_rpc\<lparr>session_vec :=
       [Some (example_session\<lparr>slots := [Some example_exchange, None], credits := 1\<rparr>)]\<rparr>"

definition example_kv_params :: KvParams where
  "example_kv_params =
     \<lparr>keys_per_server_thread = 1, app_cont_func_ptr = 77,
      write_kv = (\<lambda>k bytes. replicate 48 (ucast k)),
      read_key = (\<lambda>bytes. Key 1 0),
      read_val_frag0 = (\<lambda>bytes. 1),
      read_result = (\<lambda>bytes. kSetSuccess)\<rparr>"

definition example_kv_client :: ClientContext where
  "example_kv_client =
     \<lparr>kv_num_resps = 0, workload = kGets,
      kv_key_arr = replicate 32 (Key 0 0),
      kv_is_set_arr = replicate 32 False,
      kv_req_msgbuf = replicate 32 \<lparr>max_data_size = 48, buf = []\<rparr>,
      kv_resp_msgbuf = replicate 32 \<lparr>max_data_size = 48, buf = []\<rparr>,
      num_get_reqs = 0, num_get_success = 0, num_set_reqs = 0, num_set_success = 0\<rparr>"

definition example_consensus_params :: ConsensusParams where
  "example_consensus_params =
     \<lparr>num_raft_servers = 3, node_id_of = int, kAppNumKeys = 1024, kClientReq = 3,
      client_cont_ptr = 55, write_req = (\<lambda>k bytes. bytes),
      decode_resp = (\<lambda>bytes. \<lparr>resp_type = kSuccess, leader_node_id = 0\<rparr>)\<rparr>"

definition example_consensus_client :: ConsensusClient where
  "example_consensus_client =
     \<lparr>leader_idx = 0, num_resps = 0, last_key = 0,
      conn_vec = [\<lparr>conn_session_num = 0, conn_disconnected = False\<rparr>,
                  \<lparr>conn_session_num = 1, conn_disconnected = False\<rparr>,
                  \<lparr>conn_session_num = 2, conn_disconnected = False\<rparr>],
      cl_req_msgbuf = \<lparr>max_data_size = 8, buf = [7]\<rparr>,
      cl_resp_msgbuf = \<lparr>max_data_size = 8, buf = []\<rparr>\<rparr>"

section \<open>Theorems\<close>

subsection \<open>Fault injection\<close>

lemma check_ok_forbidden:
  "\<not> kFaultInjection cfg \<or> \<not> in_creator rpc tid \<Longrightarrow>
   \<exists>e. fault_inject_check_ok cfg tid rpc = Inl e \<and> FAULT_INJECTION_FORBIDDEN e"
  by (auto simp: fault_inject_check_ok_def FAULT_INJECTION_FORBIDDEN_def)

lemma check_ok_passes:
  "kFaultInjection cfg \<Longrightarrow> in_creator rpc tid \<Longrightarrow> fault_inject_check_ok cfg tid rpc = Inr ()"
  by (simp add: fault_inject_check_ok_def)

text \<open>
  C2. A fault-injection operation called from a thread that did not create the endpoint, or
  in a build without fault injection, fails: each of the four operations throws one of the two
  exceptions of \<open>fault_inject_check_ok\<close> (the specification's \<open>FAULT_INJECTION_FORBIDDEN\<close>),
  the same one for all four, and the endpoint after the call is the endpoint before it.
\<close>

theorem fault_injection_forbidden:
  assumes "\<not> kFaultInjection cfg \<or> \<not> in_creator rpc tid"
  shows "\<exists>e. FAULT_INJECTION_FORBIDDEN e \<and>
           fault_inject_resolve_server_rinfo_st cfg tid rpc = (Inl e, rpc) \<and>
           fault_inject_drop_tx_local_st cfg tid n rpc = (Inl e, rpc) \<and>
           fault_inject_drop_tx_remote_st cfg tid session_num n rpc = (Inl e, rpc) \<and>
           fault_inject_reset_remote_epeer_st cfg d tid session_num rpc = (Inl e, rpc)"
proof -
  from check_ok_forbidden [OF assms] obtain e
    where e: "fault_inject_check_ok cfg tid rpc = Inl e" "FAULT_INJECTION_FORBIDDEN e"
    by blast
  show ?thesis
    using e
    by (simp add: fault_inject_resolve_server_rinfo_st_def fault_inject_drop_tx_local_st_def
        fault_inject_drop_tx_remote_st_def fault_inject_reset_remote_epeer_st_def)
qed

theorem fault_injection_forbidden_witness:
  "\<not> in_creator example_rpc 8 \<and>
   (\<exists>e. FAULT_INJECTION_FORBIDDEN e \<and>
      fault_inject_resolve_server_rinfo_st example_cfg 8 example_rpc = (Inl e, example_rpc) \<and>
      fault_inject_drop_tx_local_st example_cfg 8 3 example_rpc = (Inl e, example_rpc) \<and>
      fault_inject_drop_tx_remote_st example_cfg 8 0 3 example_rpc = (Inl e, example_rpc) \<and>
      fault_inject_reset_remote_epeer_st example_cfg 0 8 0 example_rpc = (Inl e, example_rpc)) \<and>
   \<not> kFaultInjection (example_cfg\<lparr>kFaultInjection := False\<rparr>) \<and>
   (\<exists>e. FAULT_INJECTION_FORBIDDEN e \<and>
      fault_inject_resolve_server_rinfo_st (example_cfg\<lparr>kFaultInjection := False\<rparr>) 7 example_rpc
        = (Inl e, example_rpc) \<and>
      fault_inject_drop_tx_local_st (example_cfg\<lparr>kFaultInjection := False\<rparr>) 7 3 example_rpc
        = (Inl e, example_rpc) \<and>
      fault_inject_drop_tx_remote_st (example_cfg\<lparr>kFaultInjection := False\<rparr>) 7 0 3 example_rpc
        = (Inl e, example_rpc) \<and>
      fault_inject_reset_remote_epeer_st (example_cfg\<lparr>kFaultInjection := False\<rparr>) 0 7 0 example_rpc
        = (Inl e, example_rpc))"
proof -
  have h: "\<not> in_creator example_rpc 8"
    by (simp add: in_creator_def example_rpc_def)
  have k: "\<not> kFaultInjection (example_cfg\<lparr>kFaultInjection := False\<rparr>)"
    by simp
  show ?thesis
    using h k
      fault_injection_forbidden [of example_cfg example_rpc 8 3 0 0]
      fault_injection_forbidden [of "example_cfg\<lparr>kFaultInjection := False\<rparr>" example_rpc 7 3 0 0]
    by simp
qed

text \<open>
  C6. A call of \<open>drop_tx_remote\<close> that returns has emitted exactly one session-management
  message: of type \<open>kFaultDropTxRemote\<close>, carrying the countdown, addressed to the server of
  the session found under the session number. Nothing else of the endpoint has changed: the
  session table, with the datapath state of every session, and the local fault state are
  the ones before the call.
\<close>

theorem drop_tx_remote_emits_one_message:
  assumes "fault_inject_drop_tx_remote_st cfg tid session_num n rpc = (Inr (), rpc')"
  shows "\<exists>session. is_usr_session_num_in_range rpc session_num \<and>
           session_vec rpc ! nat session_num = Some session \<and>
           rpc' = rpc\<lparr>sm_tx := sm_tx rpc @ [fault_sm_pkt rpc session kFaultDropTxRemote n]\<rparr> \<and>
           session_vec rpc' = session_vec rpc \<and> faults rpc' = faults rpc \<and>
           tx_list rpc' = tx_list rpc"
  using assms
  by (auto simp: fault_inject_drop_tx_remote_st_def enqueue_sm_req_st_def fault_sm_pkt_def
      split: sum.splits if_splits option.splits)

theorem drop_tx_remote_emits_one_message_witness:
  "fault_inject_drop_tx_remote_st example_cfg 7 0 5 example_rpc =
     (Inr (), example_rpc\<lparr>sm_tx := [fault_sm_pkt example_rpc example_session kFaultDropTxRemote 5]\<rparr>) \<and>
   (\<exists>session. is_usr_session_num_in_range example_rpc 0 \<and>
      session_vec example_rpc ! nat 0 = Some session \<and>
      example_rpc\<lparr>sm_tx := [fault_sm_pkt example_rpc example_session kFaultDropTxRemote 5]\<rparr> =
        example_rpc\<lparr>sm_tx := sm_tx example_rpc @
           [fault_sm_pkt example_rpc session kFaultDropTxRemote 5]\<rparr> \<and>
      session_vec (example_rpc\<lparr>sm_tx := [fault_sm_pkt example_rpc example_session kFaultDropTxRemote 5]\<rparr>) =
        session_vec example_rpc \<and>
      faults (example_rpc\<lparr>sm_tx := [fault_sm_pkt example_rpc example_session kFaultDropTxRemote 5]\<rparr>) =
        faults example_rpc)"
proof -
  have h: "fault_inject_drop_tx_remote_st example_cfg 7 0 5 example_rpc =
     (Inr (), example_rpc\<lparr>sm_tx := [fault_sm_pkt example_rpc example_session kFaultDropTxRemote 5]\<rparr>)"
    by (simp add: fault_inject_drop_tx_remote_st_def fault_inject_check_ok_def in_creator_def
        is_usr_session_num_in_range_def enqueue_sm_req_st_def fault_sm_pkt_def
        is_connected_def is_client_def example_cfg_def example_rpc_def example_session_def)
  show ?thesis
    using h drop_tx_remote_emits_one_message [OF h] by simp
qed







text \<open>
  C9. Once the creator-thread and build-flag check has passed, the two remote operations
  require of the session number that it is in range, that its entry is not null and that the
  session is a connected client. When that holds, no assertion fails and both operations
  return, whether assertions are compiled in or not. When it does not hold and assertions
  are compiled in, both operations stop at a failed assertion, with the endpoint unchanged.
\<close>

theorem fault_inject_assertions:
  assumes "kFaultInjection cfg" and "in_creator rpc tid"
  shows "(fault_inject_session_ok rpc session_num \<longrightarrow>
            fst (fault_inject_drop_tx_remote_st cfg tid session_num n rpc) = Inr () \<and>
            fst (fault_inject_reset_remote_epeer_st cfg d tid session_num rpc) = Inr ()) \<and>
         (asserts_enabled cfg \<and> \<not> fault_inject_session_ok rpc session_num \<longrightarrow>
            fault_inject_drop_tx_remote_st cfg tid session_num n rpc =
              (Inl assertion_failed, rpc) \<and>
            fault_inject_reset_remote_epeer_st cfg d tid session_num rpc =
              (Inl assertion_failed, rpc))"
  using check_ok_passes [OF assms]
  by (auto simp: fault_inject_drop_tx_remote_st_def fault_inject_reset_remote_epeer_st_def
      fault_inject_session_ok_def split: option.splits)

theorem fault_inject_assertions_witness:
  "kFaultInjection example_cfg \<and> in_creator example_rpc 7 \<and>
   fault_inject_session_ok example_rpc 0 \<and>
   fst (fault_inject_drop_tx_remote_st example_cfg 7 0 5 example_rpc) = Inr () \<and>
   fst (fault_inject_reset_remote_epeer_st example_cfg 0 7 0 example_rpc) = Inr () \<and>
   asserts_enabled example_cfg \<and> \<not> fault_inject_session_ok example_rpc 1 \<and>
   fault_inject_drop_tx_remote_st example_cfg 7 1 5 example_rpc =
     (Inl assertion_failed, example_rpc) \<and>
   fault_inject_reset_remote_epeer_st example_cfg 0 7 1 example_rpc =
     (Inl assertion_failed, example_rpc)"
proof -
  have a: "kFaultInjection example_cfg" "asserts_enabled example_cfg"
    by (simp_all add: example_cfg_def)
  have b: "in_creator example_rpc 7"
    by (simp add: in_creator_def example_rpc_def)
  have ok: "fault_inject_session_ok example_rpc 0"
    by (simp add: fault_inject_session_ok_def is_usr_session_num_in_range_def example_rpc_def
        example_session_def is_client_def is_connected_def)
  have bad: "\<not> fault_inject_session_ok example_rpc 1"
    by (simp add: fault_inject_session_ok_def is_usr_session_num_in_range_def example_rpc_def)
  show ?thesis
    using a b ok bad
      fault_inject_assertions [OF a(1) b, of 0 5 0]
      fault_inject_assertions [OF a(1) b, of 1 5 0]
    by simp
qed

subsection \<open>The persistent key-value server\<close>

lemma unat_succ_small:
  "unat (x :: 64 word) < 16 \<Longrightarrow> unat (x + 1) = Suc (unat x)"
  by (simp add: unat_word_ariths)

lemma drain_batch_step_ok:
  assumes "i < kAppMaxServerBatch" "arrays_ok c"
  shows "\<exists>c'. drain_batch_step sa wr i c = Inr c' \<and> arrays_ok c' \<and>
           map handle_id (req_handle_arr c') = map handle_id (req_handle_arr c) \<and>
           submitted c' = submitted c @ [handle_id (req_handle_arr c ! i)] \<and>
           num_reqs_in_batch c' = num_reqs_in_batch c \<and>
           num_reqs_tot c' = num_reqs_tot c"
  using assms
  by (auto simp: drain_batch_step_def arrays_ok_def submitted_def Let_def map_update
      list_update_same_conv)

lemma drain_batch_loop_ok:
  assumes "\<forall>i \<in> set is. i < kAppMaxServerBatch" "arrays_ok c"
  shows "\<exists>c'. drain_batch_loop sa wr is c = Inr c' \<and> arrays_ok c' \<and>
           map handle_id (req_handle_arr c') = map handle_id (req_handle_arr c) \<and>
           submitted c' = submitted c @ map (\<lambda>i. handle_id (req_handle_arr c ! i)) is \<and>
           num_reqs_in_batch c' = num_reqs_in_batch c \<and>
           num_reqs_tot c' = num_reqs_tot c"
  using assms
proof (induction "is" arbitrary: c)
  case Nil
  then show ?case by simp
next
  case (Cons i "is")
  from Cons.prems have i: "i < kAppMaxServerBatch" by simp
  from drain_batch_step_ok [OF i Cons.prems(2), of sa wr] obtain c1 where
    c1: "drain_batch_step sa wr i c = Inr c1" "arrays_ok c1"
      "map handle_id (req_handle_arr c1) = map handle_id (req_handle_arr c)"
      "submitted c1 = submitted c @ [handle_id (req_handle_arr c ! i)]"
      "num_reqs_in_batch c1 = num_reqs_in_batch c" "num_reqs_tot c1 = num_reqs_tot c"
    by blast
  from Cons.prems have rest: "\<forall>j \<in> set is. j < kAppMaxServerBatch" by simp
  from Cons.IH [OF rest c1(2)] obtain c' where
    c': "drain_batch_loop sa wr is c1 = Inr c'" "arrays_ok c'"
      "map handle_id (req_handle_arr c') = map handle_id (req_handle_arr c1)"
      "submitted c' = submitted c1 @ map (\<lambda>i. handle_id (req_handle_arr c1 ! i)) is"
      "num_reqs_in_batch c' = num_reqs_in_batch c1" "num_reqs_tot c' = num_reqs_tot c1"
    by blast
  have same: "map (\<lambda>i. handle_id (req_handle_arr c1 ! i)) is
            = map (\<lambda>i. handle_id (req_handle_arr c ! i)) is"
  proof (rule map_cong [OF refl])
    fix j assume "j \<in> set is"
    with rest have "j < kAppMaxServerBatch" by simp
    with c1(2) Cons.prems(2) have "j < length (req_handle_arr c1)" "j < length (req_handle_arr c)"
      by (simp_all add: arrays_ok_def)
    then have "handle_id (req_handle_arr c1 ! j) = map handle_id (req_handle_arr c1) ! j"
      "handle_id (req_handle_arr c ! j) = map handle_id (req_handle_arr c) ! j"
      by simp_all
    with c1(3) show "handle_id (req_handle_arr c1 ! j) = handle_id (req_handle_arr c ! j)"
      by simp
  qed
  show ?case
    using c1 c' same by simp
qed

lemma take_as_map_nth: "n \<le> length xs \<Longrightarrow> map (\<lambda>i. f (xs ! i)) [0 ..< n] = map f (take n xs)"
  by (simp add: list_eq_iff_nth_eq)

lemma drain_batch_ok:
  assumes "arrays_ok c" "unat (num_reqs_in_batch c) \<le> kAppMaxServerBatch"
    "asserts_enabled cfg \<longrightarrow> 0 < num_reqs_in_batch c"
  shows "\<exists>c'. drain_batch cfg hm c = Inr c' \<and> arrays_ok c' \<and>
           submitted c' = submitted c @ pending c \<and>
           num_reqs_in_batch c' = 0 \<and> num_reqs_tot c' = num_reqs_tot c"
proof -
  obtain sa wr h' where helper:
    "batch_op_drain_helper hm (hashmap c) (is_set_arr c) (keyhash_arr c)
       (key_ptr_arr c) (val_ptr_arr c) (num_reqs_in_batch c) = (sa, wr, h')"
    by (metis prod_cases3)
  let ?c0 = "c\<lparr>hashmap := h'\<rparr>"
  let ?n = "unat (num_reqs_in_batch c)"
  have ok0: "arrays_ok ?c0" using assms(1) by (simp add: arrays_ok_def)
  have idx: "\<forall>i \<in> set [0 ..< ?n]. i < kAppMaxServerBatch" using assms(2) by simp
  from drain_batch_loop_ok [OF idx ok0, of sa wr] obtain c1 where
    c1: "drain_batch_loop sa wr [0 ..< ?n] ?c0 = Inr c1" "arrays_ok c1"
      "submitted c1 = submitted ?c0 @ map (\<lambda>i. handle_id (req_handle_arr ?c0 ! i)) [0 ..< ?n]"
      "num_reqs_in_batch c1 = num_reqs_in_batch ?c0" "num_reqs_tot c1 = num_reqs_tot ?c0"
    by blast
  have len: "?n \<le> length (req_handle_arr c)"
    using assms(1,2) by (simp add: arrays_ok_def)
  have sub: "submitted c1 = submitted c @ pending c"
    using c1(3) take_as_map_nth [OF len, of handle_id]
    by (simp add: submitted_def pending_def)
  show ?thesis
    using assms(3) helper c1 sub
    by (simp add: drain_batch_def arrays_ok_def submitted_def)
qed

lemma unat_16: "unat (16 :: 64 word) = 16" by simp

lemma pending_length:
  "arrays_ok c \<Longrightarrow> unat (num_reqs_in_batch c) \<le> kAppMaxServerBatch \<Longrightarrow>
   length (pending c) = unat (num_reqs_in_batch c)"
  by (simp add: pending_def arrays_ok_def)

lemma req_handler_record_Inr:
  assumes "batch_inv c" "req_handler_record cfg hm h c = Inr c'"
  shows "arrays_ok c' \<and> unat (num_reqs_in_batch c') = Suc (unat (num_reqs_in_batch c)) \<and>
         pending c' = pending c @ [handle_id h] \<and> submitted c' = submitted c \<and>
         num_reqs_tot c' = num_reqs_tot c + 1"
proof -
  let ?k = "unat (num_reqs_in_batch c)"
  from assms(1) have k: "?k < 16" and ok: "arrays_ok c"
    by (simp_all add: batch_inv_def kAppMaxServerBatch_def)
  have suc: "unat (num_reqs_in_batch c + 1) = Suc ?k"
    using k by (rule unat_succ_small)
  have len: "?k < length (req_handle_arr c)"
    using k ok by (simp add: arrays_ok_def kAppMaxServerBatch_def)
  have tk: "\<And>x. take (Suc ?k) ((req_handle_arr c)[?k := x]) = take ?k (req_handle_arr c) @ [x]"
    using len by (simp add: take_Suc_conv_app_nth)
  show ?thesis
    using assms(2) k ok suc tk
    by (auto simp: req_handler_record_def Let_def arrays_ok_def kAppMaxServerBatch_def
        pending_def submitted_def split: if_splits)
qed

lemma req_handler_record_Inl:
  assumes "batch_inv c" "req_handler_record cfg hm h c = Inl e"
  shows "e = assertion_failed \<and> asserts_enabled cfg \<and>
         req_data_size (req_msgbuf h) \<noteq> sizeof_Key \<and>
         req_data_size (req_msgbuf h) \<noteq> sizeof_Key + sizeof_Value"
  using assms
  by (auto simp: req_handler_record_def Let_def batch_inv_def split: if_splits)

lemma req_handler_record_returns:
  assumes "batch_inv c"
    "\<not> asserts_enabled cfg \<or> req_data_size (req_msgbuf h) = sizeof_Key \<or>
     req_data_size (req_msgbuf h) = sizeof_Key + sizeof_Value"
  shows "\<exists>c'. req_handler_record cfg hm h c = Inr c'"
  using assms
  by (auto simp: req_handler_record_def Let_def batch_inv_def split: if_splits)

lemma full_iff:
  "unat (n :: 64 word) \<le> 16 \<Longrightarrow> (n = of_nat kAppMaxServerBatch) = (unat n = 16)"
proof
  assume "n = of_nat kAppMaxServerBatch"
  then show "unat n = 16" by (simp add: kAppMaxServerBatch_def)
next
  assume "unat n = 16"
  then have "unat n = unat (16 :: 64 word)" by simp
  then have "n = 16" by (simp only: word_unat_eq_iff)
  then show "n = of_nat kAppMaxServerBatch" by (simp add: kAppMaxServerBatch_def)
qed

lemma req_handler_Inr:
  assumes "batch_inv c" "req_handler cfg hm h c = Inr c'"
  shows "batch_inv c' \<and> num_reqs_tot c' = num_reqs_tot c + 1 \<and>
         (if Suc (length (pending c)) = kAppMaxServerBatch
          then submitted c' = submitted c @ pending c @ [handle_id h] \<and> pending c' = []
          else submitted c' = submitted c \<and> pending c' = pending c @ [handle_id h])"
proof -
  from assms(2) obtain c1 where c1: "req_handler_record cfg hm h c = Inr c1"
    by (auto simp: req_handler_def split: sum.splits)
  note r = req_handler_record_Inr [OF assms(1) c1]
  from assms(1) have k: "unat (num_reqs_in_batch c) < 16" and ok: "arrays_ok c"
    by (simp_all add: batch_inv_def kAppMaxServerBatch_def)
  have lp: "length (pending c) = unat (num_reqs_in_batch c)"
    using ok k by (simp add: pending_length kAppMaxServerBatch_def)
  have le: "unat (num_reqs_in_batch c1) \<le> 16" using r k by simp
  show ?thesis
  proof (cases "unat (num_reqs_in_batch c1) = 16")
    case True
    then have full: "num_reqs_in_batch c1 = of_nat kAppMaxServerBatch"
      using full_iff [OF le] by simp
    have pos: "asserts_enabled cfg \<longrightarrow> 0 < num_reqs_in_batch c1"
      using True by (simp add: word_less_nat_alt)
    from drain_batch_ok [OF _ _ pos, of hm] r True obtain c2 where
      c2: "drain_batch cfg hm c1 = Inr c2" "arrays_ok c2"
        "submitted c2 = submitted c1 @ pending c1" "num_reqs_in_batch c2 = 0"
        "num_reqs_tot c2 = num_reqs_tot c1"
      by (auto simp: kAppMaxServerBatch_def)
    have "c' = c2" using assms(2) c1 full c2(1) by (simp add: req_handler_def)
    then show ?thesis
      using c2 r True lp by (simp add: batch_inv_def kAppMaxServerBatch_def pending_def)
  next
    case False
    then have nf: "num_reqs_in_batch c1 \<noteq> of_nat kAppMaxServerBatch"
      using full_iff [OF le] by simp
    have "c' = c1" using assms(2) c1 nf by (simp add: req_handler_def)
    then show ?thesis
      using r False le lp by (simp add: batch_inv_def kAppMaxServerBatch_def)
  qed
qed

lemma req_handler_Inl:
  assumes "batch_inv c" "req_handler cfg hm h c = Inl e"
  shows "e = assertion_failed"
proof (cases "req_handler_record cfg hm h c")
  case (Inl e')
  then show ?thesis
    using assms req_handler_record_Inl [OF assms(1) Inl] by (simp add: req_handler_def)
next
  case (Inr c1)
  note r = req_handler_record_Inr [OF assms(1) Inr]
  from assms(1) have k: "unat (num_reqs_in_batch c) < 16"
    by (simp add: batch_inv_def kAppMaxServerBatch_def)
  have le: "unat (num_reqs_in_batch c1) \<le> 16" using r k by simp
  from assms(2) Inr have full: "num_reqs_in_batch c1 = of_nat kAppMaxServerBatch"
    and d: "drain_batch cfg hm c1 = Inl e"
    by (auto simp: req_handler_def split: if_splits)
  have "unat (num_reqs_in_batch c1) = 16" using full full_iff [OF le] by simp
  then have pos: "asserts_enabled cfg \<longrightarrow> 0 < num_reqs_in_batch c1"
    by (simp add: word_less_nat_alt)
  from drain_batch_ok [OF _ _ pos, of hm] r le d show ?thesis
    by (auto simp: kAppMaxServerBatch_def)
qed

lemma req_handler_safe: "batch_inv c \<Longrightarrow> stays_in_bounds (req_handler cfg hm h c)"
  using req_handler_Inr req_handler_Inl
  by (fastforce simp: stays_in_bounds_def split: sum.splits)

lemma stays_in_bounds_simps:
  "stays_in_bounds (Inr c) = batch_inv c"
  "stays_in_bounds (Inl e) = (e = assertion_failed)"
  by (simp_all add: stays_in_bounds_def)

lemma batch_inv_pending_length:
  "batch_inv c \<Longrightarrow> length (pending c) = unat (num_reqs_in_batch c)"
  "batch_inv c \<Longrightarrow> length (pending c) < kAppMaxServerBatch"
  by (simp_all add: batch_inv_def pending_def arrays_ok_def)

lemma req_handler_flow:
  assumes "batch_inv c" "req_handler cfg hm h c = Inr c'"
  shows "submitted c' @ pending c' = submitted c @ pending c @ [handle_id h]"
    and "length (pending c') = Suc (length (pending c)) mod kAppMaxServerBatch"
  using req_handler_Inr [OF assms] batch_inv_pending_length(2) [OF assms(1)]
  by (auto split: if_splits)

lemma run_event_loop_once_Inr:
  assumes "batch_inv c" "run_event_loop_once cfg hm reqs c = Inr c'"
  shows "batch_inv c' \<and> num_reqs_tot c' = num_reqs_tot c + of_nat (length reqs) \<and>
         submitted c' @ pending c' = submitted c @ pending c @ map handle_id reqs \<and>
         length (pending c') = (length (pending c) + length reqs) mod kAppMaxServerBatch"
  using assms
proof (induction reqs arbitrary: c)
  case Nil
  then show ?case
    using batch_inv_pending_length(2) [of c] by simp
next
  case (Cons h reqs)
  from Cons.prems(2) obtain c1 where
    c1: "req_handler cfg hm h c = Inr c1" and rest: "run_event_loop_once cfg hm reqs c1 = Inr c'"
    by (auto split: sum.splits)
  note step = req_handler_Inr [OF Cons.prems(1) c1] req_handler_flow [OF Cons.prems(1) c1]
  from step(1) have inv1: "batch_inv c1" by simp
  note ih = Cons.IH [OF inv1 rest]
  have len: "length (pending c') = (length (pending c) + length (h # reqs)) mod kAppMaxServerBatch"
  proof -
    have "length (pending c') = (Suc (length (pending c)) mod kAppMaxServerBatch + length reqs)
            mod kAppMaxServerBatch"
      using ih step(3) by simp
    also have "\<dots> = (Suc (length (pending c)) + length reqs) mod kAppMaxServerBatch"
      by (rule mod_add_left_eq)
    finally show ?thesis by simp
  qed
  show ?case
    using ih step(1,2) len by (simp add: add.assoc)
qed

lemma run_event_loop_once_safe:
  "batch_inv c \<Longrightarrow> stays_in_bounds (run_event_loop_once cfg hm reqs c)"
proof (induction reqs arbitrary: c)
  case Nil
  then show ?case by (simp add: stays_in_bounds_simps)
next
  case (Cons h reqs)
  show ?case
  proof (cases "req_handler cfg hm h c")
    case (Inl e)
    then show ?thesis
      using req_handler_Inl [OF Cons.prems Inl] by (simp add: stays_in_bounds_simps)
  next
    case (Inr c1)
    then show ?thesis
      using Cons.IH [of c1] req_handler_Inr [OF Cons.prems Inr] by simp
  qed
qed

lemma idle_drain:
  assumes "batch_inv c"
  shows "\<exists>c'. (if 0 < num_reqs_in_batch c then drain_batch cfg hm c else Inr c) = Inr c' \<and>
           batch_inv c' \<and> submitted c' = submitted c @ pending c \<and> pending c' = [] \<and>
           num_reqs_tot c' = num_reqs_tot c"
proof (cases "0 < num_reqs_in_batch c")
  case True
  from assms have ok: "arrays_ok c" and le: "unat (num_reqs_in_batch c) \<le> kAppMaxServerBatch"
    by (simp_all add: batch_inv_def)
  from drain_batch_ok [OF ok le, of cfg hm] True obtain c' where
    "drain_batch cfg hm c = Inr c'" "arrays_ok c'" "submitted c' = submitted c @ pending c"
    "num_reqs_in_batch c' = 0" "num_reqs_tot c' = num_reqs_tot c"
    by auto
  then show ?thesis
    using True by (simp add: batch_inv_def pending_def kAppMaxServerBatch_def)
next
  case False
  then have "num_reqs_in_batch c = 0" by (simp add: word_greater_zero_iff)
  then show ?thesis
    using assms by (simp add: pending_def)
qed

lemma server_func_iteration_idle:
  assumes "batch_inv c"
  shows "\<exists>c'. server_func_iteration cfg hm [] c = Inr c' \<and> batch_inv c' \<and>
           submitted c' = submitted c @ pending c \<and> pending c' = []"
  using idle_drain [OF assms, of cfg hm]
  by (auto simp: server_func_iteration_def split: if_splits)

lemma server_func_iteration_busy:
  assumes "batch_inv c" "reqs \<noteq> []" "length reqs < 2 ^ 64"
  shows "server_func_iteration cfg hm reqs c = run_event_loop_once cfg hm reqs c"
proof (cases "run_event_loop_once cfg hm reqs c")
  case (Inl e)
  then show ?thesis by (simp add: server_func_iteration_def)
next
  case (Inr c')
  from run_event_loop_once_Inr [OF assms(1) Inr]
  have tot: "num_reqs_tot c' = num_reqs_tot c + of_nat (length reqs)" by simp
  have "(of_nat (length reqs) :: 64 word) \<noteq> 0"
    using assms(2,3) by (simp add: of_nat_neq_0)
  with tot have "num_reqs_tot c' \<noteq> num_reqs_tot c" by simp
  then show ?thesis
    using Inr by (simp add: server_func_iteration_def)
qed

lemma server_func_iteration_safe:
  assumes "batch_inv c"
  shows "stays_in_bounds (server_func_iteration cfg hm reqs c)"
proof (cases "run_event_loop_once cfg hm reqs c")
  case (Inl e)
  then show ?thesis
    using run_event_loop_once_safe [OF assms, of cfg hm reqs]
    by (simp add: server_func_iteration_def)
next
  case (Inr c')
  with run_event_loop_once_safe [OF assms, of cfg hm reqs] have inv: "batch_inv c'"
    by (simp add: stays_in_bounds_simps)
  from idle_drain [OF inv, of cfg hm] show ?thesis
    using Inr inv
    by (auto simp: server_func_iteration_def stays_in_bounds_simps split: if_splits)
qed

lemma server_func_inner_safe:
  "batch_inv c \<Longrightarrow> stays_in_bounds (server_func_inner cfg hm iterations c)"
proof (induction iterations arbitrary: c)
  case Nil
  then show ?case by (simp add: stays_in_bounds_simps)
next
  case (Cons reqs iterations)
  from server_func_iteration_safe [OF Cons.prems, of cfg hm reqs] Cons.IH
  show ?case
    by (cases "server_func_iteration cfg hm reqs c") (simp_all add: stays_in_bounds_simps)
qed

lemma batch_inv_reset_stats: "batch_inv (c\<lparr>num_resps_tot := 0\<rparr>) = batch_inv c"
  by (simp add: batch_inv_def arrays_ok_def)

lemma server_func_outer_safe:
  "batch_inv c \<Longrightarrow> stays_in_bounds (server_func_outer cfg hm seconds c)"
proof (induction seconds arbitrary: c)
  case Nil
  then show ?case by (simp add: stays_in_bounds_simps)
next
  case (Cons iterations seconds)
  from Cons.prems have "batch_inv (c\<lparr>num_resps_tot := 0\<rparr>)"
    by (simp add: batch_inv_reset_stats)
  from server_func_inner_safe [OF this, of cfg hm iterations] Cons.IH
  show ?case
    by (cases "server_func_inner cfg hm iterations (c\<lparr>num_resps_tot := 0\<rparr>)")
      (simp_all add: stays_in_bounds_simps batch_inv_reset_stats)
qed

lemma fresh_batch_inv: "fresh_ServerContext c \<Longrightarrow> batch_inv c"
  by (simp add: fresh_ServerContext_def batch_inv_def arrays_ok_def kAppMaxServerBatch_def)

lemma req_handler_returns:
  assumes "batch_inv c" "request_accepted cfg h"
  shows "\<exists>c'. req_handler cfg hm h c = Inr c'"
proof (cases "req_handler cfg hm h c")
  case (Inl e)
  show ?thesis
  proof (cases "req_handler_record cfg hm h c")
    case (Inl e')
    from req_handler_record_Inl [OF assms(1) Inl] assms(2) show ?thesis
      by (simp add: request_accepted_def)
  next
    case (Inr c1)
    note r = req_handler_record_Inr [OF assms(1) Inr]
    from assms(1) have k: "unat (num_reqs_in_batch c) < 16"
      by (simp add: batch_inv_def kAppMaxServerBatch_def)
    have le: "unat (num_reqs_in_batch c1) \<le> 16" using r k by simp
    from \<open>req_handler cfg hm h c = Inl e\<close> Inr
    have full: "num_reqs_in_batch c1 = of_nat kAppMaxServerBatch"
      and d: "drain_batch cfg hm c1 = Inl e"
      by (auto simp: req_handler_def split: if_splits)
    have "unat (num_reqs_in_batch c1) = 16" using full full_iff [OF le] by simp
    then have pos: "asserts_enabled cfg \<longrightarrow> 0 < num_reqs_in_batch c1"
      by (simp add: word_less_nat_alt)
    from drain_batch_ok [OF _ _ pos, of hm] r le d show ?thesis
      by (auto simp: kAppMaxServerBatch_def)
  qed
next
  case (Inr c')
  then show ?thesis by blast
qed

lemma run_event_loop_once_returns:
  assumes "batch_inv c" "list_all (request_accepted cfg) reqs"
  shows "\<exists>c'. run_event_loop_once cfg hm reqs c = Inr c'"
  using assms
proof (induction reqs arbitrary: c)
  case Nil
  then show ?case by simp
next
  case (Cons h reqs)
  from Cons.prems have "request_accepted cfg h" by simp
  from req_handler_returns [OF Cons.prems(1) this, of hm] obtain c1
    where c1: "req_handler cfg hm h c = Inr c1" by blast
  from req_handler_Inr [OF Cons.prems(1) c1] have "batch_inv c1" by simp
  from Cons.IH [OF this] Cons.prems(2) c1 show ?case by simp
qed

text \<open>
  C5. The server defers its responses until the batch is full or an iteration of the event
  loop brings no request. From a context that satisfies the invariant, with requests the
  handler accepts:
  \<^item> the handler adds the request to the batch and submits nothing, unless the request is
    the \<open>kAppMaxServerBatch\<close>-th of the batch: then the responses of the whole batch, this
    request included, are submitted in their order and the batch is empty;
  \<^item> an iteration without requests submits the responses of the whole batch and leaves
    it empty (nothing is submitted when it was empty);
  \<^item> an iteration with requests (fewer than \<open>2 ^ 64\<close>, where the request counter would come
    back to its start) does what the handler does for each request and nothing more: of
    the requests seen, a prefix is answered, in order, and the rest is the batch, whose
    length is the number of requests seen modulo \<open>kAppMaxServerBatch\<close>.
\<close>

theorem batching_policy:
  assumes "batch_inv c" and "request_accepted cfg h"
    and "list_all (request_accepted cfg) reqs" and "length reqs < 2 ^ 64"
  shows "(\<exists>c'. req_handler cfg hm h c = Inr c' \<and>
            (if Suc (length (pending c)) = kAppMaxServerBatch
             then submitted c' = submitted c @ pending c @ [handle_id h] \<and> pending c' = []
             else submitted c' = submitted c \<and> pending c' = pending c @ [handle_id h])) \<and>
         (\<exists>c'. server_func_iteration cfg hm [] c = Inr c' \<and>
            submitted c' = submitted c @ pending c \<and> pending c' = []) \<and>
         (\<exists>c'. run_event_loop_once cfg hm reqs c = Inr c' \<and>
            submitted c' @ pending c' = submitted c @ pending c @ map handle_id reqs \<and>
            length (pending c') = (length (pending c) + length reqs) mod kAppMaxServerBatch \<and>
            (reqs \<noteq> [] \<longrightarrow> server_func_iteration cfg hm reqs c = Inr c'))"
proof (intro conjI)
  from req_handler_returns [OF assms(1,2), of hm] obtain c'
    where c': "req_handler cfg hm h c = Inr c'" by blast
  from req_handler_Inr [OF assms(1) c'] c'
  show "\<exists>c'. req_handler cfg hm h c = Inr c' \<and>
            (if Suc (length (pending c)) = kAppMaxServerBatch
             then submitted c' = submitted c @ pending c @ [handle_id h] \<and> pending c' = []
             else submitted c' = submitted c \<and> pending c' = pending c @ [handle_id h])"
    by simp
next
  from server_func_iteration_idle [OF assms(1), of cfg hm]
  show "\<exists>c'. server_func_iteration cfg hm [] c = Inr c' \<and>
            submitted c' = submitted c @ pending c \<and> pending c' = []"
    by blast
next
  from run_event_loop_once_returns [OF assms(1,3), of hm] obtain c'
    where c': "run_event_loop_once cfg hm reqs c = Inr c'" by blast
  from run_event_loop_once_Inr [OF assms(1) c'] c'
    server_func_iteration_busy [OF assms(1) _ assms(4), of cfg hm]
  show "\<exists>c'. run_event_loop_once cfg hm reqs c = Inr c' \<and>
            submitted c' @ pending c' = submitted c @ pending c @ map handle_id reqs \<and>
            length (pending c') = (length (pending c) + length reqs) mod kAppMaxServerBatch \<and>
            (reqs \<noteq> [] \<longrightarrow> server_func_iteration cfg hm reqs c = Inr c')"
    by simp
qed

lemma example_ctx_fresh: "fresh_ServerContext example_ctx"
  by (simp add: fresh_ServerContext_def example_ctx_def kAppMaxServerBatch_def)

lemma example_pending: "pending example_ctx = []" "submitted example_ctx = []"
  by (simp_all add: pending_def submitted_def example_ctx_def)

theorem batching_policy_witness:
  "batch_inv example_ctx \<and> request_accepted example_cfg (set_request 10) \<and>
   list_all (request_accepted example_cfg) [get_request 20, set_request 30] \<and>
   length [get_request 20, set_request 30] < 2 ^ 64 \<and>
   (\<exists>c'. req_handler example_cfg example_hm (set_request 10) example_ctx = Inr c' \<and>
      submitted c' = [] \<and> pending c' = [10]) \<and>
   (\<exists>c'. server_func_iteration example_cfg example_hm [] example_ctx = Inr c' \<and>
      submitted c' = [] \<and> pending c' = []) \<and>
   (\<exists>c'. run_event_loop_once example_cfg example_hm [get_request 20, set_request 30] example_ctx
            = Inr c' \<and>
      submitted c' @ pending c' = [20, 30] \<and> length (pending c') = 2 \<and>
      server_func_iteration example_cfg example_hm [get_request 20, set_request 30] example_ctx
            = Inr c')"
proof -
  have a: "batch_inv example_ctx"
    using example_ctx_fresh by (rule fresh_batch_inv)
  have b: "request_accepted example_cfg (set_request 10)"
    by (simp add: request_accepted_def set_request_def sizeof_Key_def sizeof_Value_def)
  have c: "list_all (request_accepted example_cfg) [get_request 20, set_request 30]"
    by (simp add: request_accepted_def set_request_def get_request_def sizeof_Key_def
        sizeof_Value_def)
  have d: "length [get_request 20, set_request 30] < 2 ^ 64" by simp
  note t = batching_policy [OF a b c d, of example_hm]
  have e1: "(Suc (length (pending example_ctx)) = kAppMaxServerBatch) = False"
    "submitted example_ctx = []"
    "pending example_ctx @ [handle_id (set_request 10)] = [10]"
    "submitted example_ctx @ pending example_ctx = []"
    by (simp_all add: example_pending kAppMaxServerBatch_def set_request_def)
  have e3: "submitted example_ctx @ pending example_ctx @ map handle_id [get_request 20, set_request 30]
              = [20, 30]"
    "(length (pending example_ctx) + length [get_request 20, set_request 30]) mod kAppMaxServerBatch = 2"
    "([get_request 20, set_request 30] \<noteq> []) = True"
    by (simp_all add: example_pending kAppMaxServerBatch_def set_request_def get_request_def)
  have t1: "\<exists>c'. req_handler example_cfg example_hm (set_request 10) example_ctx = Inr c' \<and>
      submitted c' = [] \<and> pending c' = [10]"
    using t [THEN conjunct1] by (simp only: e1 if_False)
  have t2: "\<exists>c'. server_func_iteration example_cfg example_hm [] example_ctx = Inr c' \<and>
      submitted c' = [] \<and> pending c' = []"
    using t [THEN conjunct2, THEN conjunct1] by (simp add: example_pending)
  have t3: "\<exists>c'. run_event_loop_once example_cfg example_hm [get_request 20, set_request 30] example_ctx
            = Inr c' \<and>
      submitted c' @ pending c' = [20, 30] \<and> length (pending c') = 2 \<and>
      server_func_iteration example_cfg example_hm [get_request 20, set_request 30] example_ctx
            = Inr c'"
    using t [THEN conjunct2, THEN conjunct2] by (simp only: e3 simp_thms)
  from a b c d t1 t2 t3 show ?thesis by blast
qed

text \<open>
  C10. From the context \<open>server_func\<close> starts with, no run reads or writes a batch array out
  of bounds. In every context in which the handler is entered the arrays have their length
  and \<open>num_reqs_in_batch\<close> is below \<open>kAppMaxServerBatch\<close>; the handler increments the
  counter, which is then at most \<open>kAppMaxServerBatch\<close>, and it resets the counter to zero
  by draining exactly when the incremented counter equals \<open>kAppMaxServerBatch\<close>.
\<close>

theorem batch_counter_invariant:
  assumes "fresh_ServerContext c0"
  shows "handler_entry_state cfg hm seconds iterations reqs c0 \<noteq> Inl undefined_behaviour \<and>
         (\<forall>c. handler_entry_state cfg hm seconds iterations reqs c0 = Inr c \<longrightarrow>
            unat (num_reqs_in_batch c) < kAppMaxServerBatch \<and> arrays_ok c \<and>
            req_handler_record cfg hm h c \<noteq> Inl undefined_behaviour \<and>
            req_handler cfg hm h c \<noteq> Inl undefined_behaviour \<and>
            (\<forall>c'. req_handler_record cfg hm h c = Inr c' \<longrightarrow>
               num_reqs_in_batch c' = num_reqs_in_batch c + 1 \<and>
               unat (num_reqs_in_batch c') \<le> kAppMaxServerBatch) \<and>
            (\<forall>c'. req_handler cfg hm h c = Inr c' \<longrightarrow>
               num_reqs_in_batch c' =
                 (if num_reqs_in_batch c + 1 = of_nat kAppMaxServerBatch then 0
                  else num_reqs_in_batch c + 1) \<and>
               unat (num_reqs_in_batch c') < kAppMaxServerBatch))"
proof -
  have inv0: "batch_inv c0" using assms by (rule fresh_batch_inv)
  have safe: "stays_in_bounds (handler_entry_state cfg hm seconds iterations reqs c0)"
  proof (cases "server_func_outer cfg hm seconds c0")
    case (Inl e)
    with server_func_outer_safe [OF inv0, of cfg hm seconds] show ?thesis
      by (simp add: handler_entry_state_def)
  next
    case c1: (Inr c1)
    with server_func_outer_safe [OF inv0, of cfg hm seconds]
    have inv1: "batch_inv (c1\<lparr>num_resps_tot := 0\<rparr>)"
      by (simp add: stays_in_bounds_simps batch_inv_reset_stats)
    show ?thesis
    proof (cases "server_func_inner cfg hm iterations (c1\<lparr>num_resps_tot := 0\<rparr>)")
      case (Inl e)
      with server_func_inner_safe [OF inv1, of cfg hm iterations] c1 show ?thesis
        by (simp add: handler_entry_state_def)
    next
      case (Inr c2)
      with server_func_inner_safe [OF inv1, of cfg hm iterations] have "batch_inv c2"
        by (simp add: stays_in_bounds_simps)
      from run_event_loop_once_safe [OF this, of cfg hm reqs] c1 Inr show ?thesis
        by (simp add: handler_entry_state_def)
    qed
  qed
  have entry: "unat (num_reqs_in_batch c) < kAppMaxServerBatch \<and> arrays_ok c \<and>
            req_handler_record cfg hm h c \<noteq> Inl undefined_behaviour \<and>
            req_handler cfg hm h c \<noteq> Inl undefined_behaviour \<and>
            (\<forall>c'. req_handler_record cfg hm h c = Inr c' \<longrightarrow>
               num_reqs_in_batch c' = num_reqs_in_batch c + 1 \<and>
               unat (num_reqs_in_batch c') \<le> kAppMaxServerBatch) \<and>
            (\<forall>c'. req_handler cfg hm h c = Inr c' \<longrightarrow>
               num_reqs_in_batch c' =
                 (if num_reqs_in_batch c + 1 = of_nat kAppMaxServerBatch then 0
                  else num_reqs_in_batch c + 1) \<and>
               unat (num_reqs_in_batch c') < kAppMaxServerBatch)"
    if inv: "batch_inv c" for c
  proof (intro conjI allI impI)
    from inv show k: "unat (num_reqs_in_batch c) < kAppMaxServerBatch"
      by (simp add: batch_inv_def)
    from inv show "arrays_ok c"
      by (simp add: batch_inv_def)
    show "req_handler_record cfg hm h c \<noteq> Inl undefined_behaviour"
      using req_handler_record_Inl [OF inv] by fastforce
    show "req_handler cfg hm h c \<noteq> Inl undefined_behaviour"
      using req_handler_Inl [OF inv] by fastforce
    fix c' assume r: "req_handler_record cfg hm h c = Inr c'"
    show "num_reqs_in_batch c' = num_reqs_in_batch c + 1"
      using r inv
      by (auto simp: req_handler_record_def Let_def batch_inv_def split: if_splits)
    show "unat (num_reqs_in_batch c') \<le> kAppMaxServerBatch"
      using req_handler_record_Inr [OF inv r] k by simp
  next
    fix c' assume r: "req_handler cfg hm h c = Inr c'"
    from r obtain c1 where c1: "req_handler_record cfg hm h c = Inr c1"
      by (auto simp: req_handler_def split: sum.splits)
    have n1: "num_reqs_in_batch c1 = num_reqs_in_batch c + 1"
      using c1 inv
      by (auto simp: req_handler_record_def Let_def batch_inv_def split: if_splits)
    note r1 = req_handler_record_Inr [OF inv c1]
    note r2 = req_handler_Inr [OF inv r]
    from inv have k: "unat (num_reqs_in_batch c) < 16"
      by (simp add: batch_inv_def kAppMaxServerBatch_def)
    have lp: "length (pending c) = unat (num_reqs_in_batch c)"
      using inv by (rule batch_inv_pending_length)
    have le: "unat (num_reqs_in_batch c1) \<le> 16" using r1 k by simp
    show "num_reqs_in_batch c' =
            (if num_reqs_in_batch c + 1 = of_nat kAppMaxServerBatch then 0
             else num_reqs_in_batch c + 1)"
    proof (cases "num_reqs_in_batch c1 = of_nat kAppMaxServerBatch")
      case True
      then have "Suc (length (pending c)) = kAppMaxServerBatch"
        using full_iff [OF le] r1 lp by (simp add: kAppMaxServerBatch_def)
      with r2 have "pending c' = []" by simp
      moreover have "length (pending c') = unat (num_reqs_in_batch c')"
        using r2 by (simp add: batch_inv_pending_length)
      ultimately have "unat (num_reqs_in_batch c') = 0" by simp
      then have "num_reqs_in_batch c' = 0" by (simp add: unat_eq_0)
      with True n1 show ?thesis by simp
    next
      case False
      then have "c' = c1" using r c1 by (simp add: req_handler_def)
      with False n1 show ?thesis by simp
    qed
    show "unat (num_reqs_in_batch c') < kAppMaxServerBatch"
      using r2 by (simp add: batch_inv_def)
  qed
  show ?thesis
  proof (cases "handler_entry_state cfg hm seconds iterations reqs c0")
    case (Inl e)
    with safe show ?thesis by (simp add: stays_in_bounds_simps)
  next
    case (Inr c)
    with safe have "batch_inv c" by (simp add: stays_in_bounds_simps)
    from entry [OF this] show ?thesis unfolding Inr by blast
  qed
qed

lemma replicate_16: "replicate 16 x = x # replicate 15 x"
  by (simp add: numeral_eq_Suc)

lemma example_entry_state:
  "\<exists>c. handler_entry_state example_cfg example_hm [[[set_request 10]]] [[]] [get_request 20]
          example_ctx = Inr c \<and>
        num_reqs_in_batch c = 1 \<and> submitted c = [10] \<and> pending c = [20]"
  by (simp add: handler_entry_state_def server_func_iteration_def req_handler_def
      req_handler_record_def drain_batch_def drain_batch_step_def Let_def
      example_cfg_def example_hm_def example_ctx_def set_request_def get_request_def
      kAppMaxServerBatch_def sizeof_Key_def sizeof_Value_def sizeof_Result_def
      submitted_def pending_def replicate_16)

theorem batch_counter_invariant_witness:
  "fresh_ServerContext example_ctx \<and>
   (\<exists>c. handler_entry_state example_cfg example_hm [[[set_request 10]]] [[]] [get_request 20]
          example_ctx = Inr c \<and>
      num_reqs_in_batch c = 1 \<and> submitted c = [10] \<and> pending c = [20] \<and>
      unat (num_reqs_in_batch c) < kAppMaxServerBatch \<and>
      (\<exists>c'. req_handler example_cfg example_hm (set_request 30) c = Inr c' \<and>
         num_reqs_in_batch c' = 2 \<and> unat (num_reqs_in_batch c') < kAppMaxServerBatch))"
proof -
  have f: "fresh_ServerContext example_ctx"
    by (simp add: fresh_ServerContext_def example_ctx_def kAppMaxServerBatch_def)
  from example_entry_state obtain c where
    c: "handler_entry_state example_cfg example_hm [[[set_request 10]]] [[]] [get_request 20]
          example_ctx = Inr c"
      "num_reqs_in_batch c = 1" "submitted c = [10]" "pending c = [20]"
    by blast
  note t = batch_counter_invariant [OF f, of example_cfg example_hm "[[[set_request 10]]]" "[[]]"
      "[get_request 20]" "set_request 30", THEN conjunct2, rule_format, OF c(1)]
  have acc: "request_accepted example_cfg (set_request 30)"
    by (simp add: request_accepted_def set_request_def sizeof_Key_def sizeof_Value_def)
  from t have inv: "batch_inv c" by (simp add: batch_inv_def)
  from req_handler_returns [OF inv acc, of example_hm] obtain c'
    where c': "req_handler example_cfg example_hm (set_request 30) c = Inr c'" by blast
  from t c' c(2) have
    "num_reqs_in_batch c' = 2 \<and> unat (num_reqs_in_batch c') < kAppMaxServerBatch"
    by (simp add: kAppMaxServerBatch_def)
  with f c c' t show ?thesis by blast
qed

subsection \<open>The endpoint's interface and its callers\<close>

text \<open>
  C4. Called from a request handler or from a continuation, \<open>create_session\<close> and
  \<open>destroy_session\<close> return \<open>FORBIDDEN_CONTEXT\<close> and the endpoint after the call is the
  endpoint before it: no session is created or torn down and no message is emitted. The
  request handler of the restriction test, which expects \<^verbatim>\<open>-EPERM\<close> from both calls,
  leaves the endpoint as it found it.
\<close>

theorem session_management_forbidden_in_callbacks:
  assumes "caller = request_handler \<or> caller = continuation"
  shows "create_session ecfg caller remote_uri remote_rpc_id rpc = (Inl FORBIDDEN_CONTEXT, rpc) \<and>
         destroy_session caller session_num rpc = (Inl FORBIDDEN_CONTEXT, rpc) \<and>
         snd (test_req_handler cfg ecfg srv_rpc_id app_death_mode work rpc) = rpc"
  using assms
  by (auto simp: create_session_def destroy_session_def test_req_handler_def)

theorem session_management_forbidden_in_callbacks_witness:
  "create_session example_ecfg request_handler ''localhost'' 3 example_rpc
     = (Inl FORBIDDEN_CONTEXT, example_rpc) \<and>
   destroy_session request_handler 0 example_rpc = (Inl FORBIDDEN_CONTEXT, example_rpc) \<and>
   create_session example_ecfg continuation ''localhost'' 3 example_rpc
     = (Inl FORBIDDEN_CONTEXT, example_rpc) \<and>
   destroy_session continuation 0 example_rpc = (Inl FORBIDDEN_CONTEXT, example_rpc) \<and>
   snd (test_req_handler example_cfg example_ecfg 3 kReqHandlerDeletesRpc id example_rpc)
     = example_rpc \<and>
   fst (create_session example_ecfg user_code ''localhost'' 3 example_rpc) = Inr 1 \<and>
   fst (destroy_session user_code 0 example_rpc) = Inr 0"
proof -
  have u: "fst (create_session example_ecfg user_code ''localhost'' 3 example_rpc) = Inr 1"
    "fst (destroy_session user_code 0 example_rpc) = Inr 0"
    by (simp_all add: create_session_def destroy_session_def example_ecfg_def example_rpc_def
        example_session_def is_usr_session_num_in_range_def Let_def)
  show ?thesis
    using u
      session_management_forbidden_in_callbacks
        [of request_handler example_ecfg "''localhost''" 3 example_rpc 0 example_cfg 3
          kReqHandlerDeletesRpc id]
      session_management_forbidden_in_callbacks
        [of continuation example_ecfg "''localhost''" 3 example_rpc 0 example_cfg 3
          kReqHandlerDeletesRpc id]
    by simp
qed

text \<open>
  C1. In a build with datapath checks, \<open>run_event_loop\<close> called from a request handler or
  from a continuation aborts the process, and so does deleting the endpoint there, for
  every endpoint; the endpoint is not touched before the abort. The request handler and the
  continuation of the restriction test, which expect the death of the process, pass in each
  of the four death modes.
\<close>

theorem reentrancy_aborts:
  assumes "kDatapathChecks cfg" and "caller = request_handler \<or> caller = continuation"
  shows "run_event_loop cfg caller work rpc = (Inl process_abort, rpc) \<and>
         delete_rpc caller rpc = Inl process_abort \<and>
         fst (test_req_handler cfg ecfg srv_rpc_id app_death_mode work rpc) = test_passed \<and>
         fst (test_cont_func cfg app_death_mode work rpc n) = test_passed"
  using assms
  by (auto simp: run_event_loop_def delete_rpc_def test_req_handler_def test_cont_func_def
      create_session_def destroy_session_def ASSERT_DEATH_def)

theorem reentrancy_aborts_witness:
  "kDatapathChecks example_cfg \<and>
   run_event_loop example_cfg request_handler id example_rpc = (Inl process_abort, example_rpc) \<and>
   delete_rpc request_handler example_rpc = Inl process_abort \<and>
   run_event_loop example_cfg continuation id example_rpc = (Inl process_abort, example_rpc) \<and>
   delete_rpc continuation example_rpc = Inl process_abort \<and>
   fst (test_req_handler example_cfg example_ecfg 3 kReqHandlerRunsEventLoop id example_rpc)
     = test_passed \<and>
   fst (test_cont_func example_cfg kContFuncDeletesRpc id example_rpc 0) = test_passed \<and>
   run_event_loop example_cfg user_code id example_rpc = (Inr (), example_rpc) \<and>
   delete_rpc user_code example_rpc = Inr ()"
proof -
  have k: "kDatapathChecks example_cfg" by (simp add: example_cfg_def)
  have u: "run_event_loop example_cfg user_code id example_rpc = (Inr (), example_rpc)"
    "delete_rpc user_code example_rpc = Inr ()"
    by (simp_all add: run_event_loop_def delete_rpc_def)
  show ?thesis
    using k u
      reentrancy_aborts [OF k, of request_handler id example_rpc example_ecfg 3
        kReqHandlerRunsEventLoop 0]
      reentrancy_aborts [OF k, of continuation id example_rpc example_ecfg 3
        kContFuncDeletesRpc 0]
    by (simp add: test_req_handler_def test_cont_func_def create_session_def
        destroy_session_def run_event_loop_def delete_rpc_def ASSERT_DEATH_def)
qed

lemma lookup_store_same:
  "lookup_session rpc sn = Some s \<Longrightarrow> lookup_session (store_session rpc sn s') sn = Some s'"
  by (auto simp: lookup_session_def store_session_def is_usr_session_num_in_range_def
      split: if_splits)

lemma lookup_store_other:
  "lookup_session rpc sn = Some s \<Longrightarrow> 0 \<le> sn' \<Longrightarrow> sn' \<noteq> sn \<Longrightarrow>
   lookup_session (store_session rpc sn' s') sn = Some s"
  by (auto simp: lookup_session_def store_session_def is_usr_session_num_in_range_def
      split: if_splits)

lemma lookup_in_range: "lookup_session rpc sn = Some s \<Longrightarrow> 0 \<le> sn"
  by (simp add: lookup_session_def is_usr_session_num_in_range_def split: if_splits)

lemma lookup_tx_list [simp]:
  "lookup_session (rpc\<lparr>tx_list := t\<rparr>) sn = lookup_session rpc sn"
  by (simp add: lookup_session_def is_usr_session_num_in_range_def)

lemma rpc_context_store [simp]: "rpc_context (store_session rpc sn s) = rpc_context rpc"
  by (simp add: store_session_def)

lemma first_free_Some:
  "first_free xs = Some i \<Longrightarrow> i < length xs \<and> xs ! i = None"
proof (induction xs arbitrary: i rule: first_free.induct)
  case 1
  then show ?case by simp
next
  case (2 xs)
  then show ?case by simp
next
  case (3 x xs)
  then show ?case by (cases "first_free xs") auto
qed

lemma slot_of_SomeD:
  "slot_of rpc sn i = Some x \<Longrightarrow>
   \<exists>s. lookup_session rpc sn = Some s \<and> i < length (slots s) \<and> slots s ! i = Some x"
  by (auto simp: slot_of_def split: option.splits if_splits)

lemma slot_of_I:
  "lookup_session rpc sn = Some s \<Longrightarrow> i < length (slots s) \<Longrightarrow> slot_of rpc sn i = slots s ! i"
  by (simp add: slot_of_def)

text \<open>What a successful \<open>enqueue_request\<close> leaves behind.\<close>

lemma enqueue_request_success:
  assumes "enqueue_request ecfg tid sn ty req resp cont tag rpc = (Inr (Inr r), rpc1)"
  shows "r = 0 \<and> rpc_context rpc1 = rpc_context rpc \<and>
         (\<exists>i. slot_of rpc sn i = None \<and>
              (\<exists>s. lookup_session rpc sn = Some s \<and> first_free (slots s) = Some i) \<and>
              slot_of rpc1 sn i = Some \<lparr>x_req_type = ty, x_req = req, x_resp = resp,
                                         x_cont = cont, x_tag = tag, x_rx_pkts = 0\<rparr>)"
proof -
  from assms obtain s i where
    s: "lookup_session rpc sn = Some s" and i: "first_free (slots s) = Some i"
    and r: "r = 0"
    and rpc1: "rpc1 = (store_session rpc sn
        (s\<lparr>slots := list_update (slots s) i
               (Some \<lparr>x_req_type = ty, x_req = req, x_resp = resp,
                      x_cont = cont, x_tag = tag, x_rx_pkts = 0\<rparr>),
            credits := credits s - 1, seq_counter := seq_counter s + 1\<rparr>))
        \<lparr>tx_list := tx_list (store_session rpc sn
        (s\<lparr>slots := list_update (slots s) i
               (Some \<lparr>x_req_type = ty, x_req = req, x_resp = resp,
                      x_cont = cont, x_tag = tag, x_rx_pkts = 0\<rparr>),
            credits := credits s - 1, seq_counter := seq_counter s + 1\<rparr>)) @ [(nat sn, i, 0)]\<rparr>"
    by (auto simp: enqueue_request_def Let_def split: if_splits option.splits)
  from first_free_Some [OF i] have il: "i < length (slots s)" and free: "slots s ! i = None"
    by simp_all
  have before: "slot_of rpc sn i = None"
    using s il free by (simp add: slot_of_def)
  have after: "slot_of rpc1 sn i = Some \<lparr>x_req_type = ty, x_req = req, x_resp = resp,
                                         x_cont = cont, x_tag = tag, x_rx_pkts = 0\<rparr>"
    unfolding rpc1 using lookup_store_same [OF s] il by (simp add: slot_of_def)
  have ctx: "rpc_context rpc1 = rpc_context rpc"
    unfolding rpc1 by simp
  show ?thesis
    using r ctx before after s i by blast
qed

lemma slot_holdsD:
  "slot_holds rpc sn i cont tag \<Longrightarrow>
   \<exists>s x. lookup_session rpc sn = Some s \<and> i < length (slots s) \<and> slots s ! i = Some x \<and>
         x_cont x = cont \<and> x_tag x = tag"
  by (auto simp: slot_holds_def split: option.splits dest: slot_of_SomeD)

lemma slot_holdsI:
  "lookup_session rpc sn = Some s \<Longrightarrow> i < length (slots s) \<Longrightarrow> slots s ! i = Some x \<Longrightarrow>
   x_cont x = cont \<Longrightarrow> x_tag x = tag \<Longrightarrow> slot_holds rpc sn i cont tag"
  by (simp add: slot_holds_def slot_of_def)

lemma slot_holds_tx_list [simp]:
  "slot_holds (rpc\<lparr>tx_list := t\<rparr>) sn i cont tag = slot_holds rpc sn i cont tag"
  by (simp add: slot_holds_def slot_of_def)

lemma enqueue_request_preserves:
  assumes "slot_holds rpc sn i cont tag"
  shows "slot_holds (snd (enqueue_request ecfg tid sn' ty req resp cont' tag' rpc)) sn i cont tag \<and>
         rpc_context (snd (enqueue_request ecfg tid sn' ty req resp cont' tag' rpc)) = rpc_context rpc"
proof -
  from slot_holdsD [OF assms] obtain s x where
    s: "lookup_session rpc sn = Some s" "i < length (slots s)" "slots s ! i = Some x"
      "x_cont x = cont" "x_tag x = tag"
    by blast
  show ?thesis
  proof (cases "sn' = sn")
    case True
    have "\<And>j. first_free (slots s) = Some j \<Longrightarrow> j \<noteq> i"
      using first_free_Some s(3) by fastforce
    then show ?thesis
      using True s assms
      by (auto simp: enqueue_request_def Let_def lookup_store_same
          intro!: slot_holdsI [where x = x] split: option.splits)
  next
    case False
    show ?thesis
      using False s assms
      by (auto simp: enqueue_request_def Let_def lookup_store_other
          intro!: slot_holdsI [where x = x] split: option.splits dest: lookup_in_range)
  qed
qed

lemma rx_resp_pkt_preserves:
  assumes "slot_holds rpc sn i cont tag" and "rx_resp_pkt sn' j pkt rpc = (r, rpc')"
  shows "rpc_context rpc' = rpc_context rpc \<and>
         (case r of
            None \<Rightarrow> slot_holds rpc' sn i cont tag
          | Some ci \<Rightarrow> if sn' = sn \<and> j = i then matches rpc cont tag ci
                       else slot_holds rpc' sn i cont tag)"
proof -
  from slot_holdsD [OF assms(1)] obtain s x where
    s: "lookup_session rpc sn = Some s" "i < length (slots s)" "slots s ! i = Some x"
      "x_cont x = cont" "x_tag x = tag"
    by blast
  show ?thesis
  proof (cases "sn' = sn")
    case True
    show ?thesis
    proof (cases "j = i")
      case same: True
      show ?thesis
        using assms True same s
        by (auto simp: rx_resp_pkt_def Let_def lookup_store_same matches_def
            intro!: slot_holdsI split: if_splits)
    next
      case False
      show ?thesis
        using assms True False s
        by (auto simp: rx_resp_pkt_def Let_def lookup_store_same
            intro!: slot_holdsI [where x = x] split: if_splits option.splits)
    qed
  next
    case False
    show ?thesis
      using assms False s
      by (auto simp: rx_resp_pkt_def Let_def lookup_store_other
          intro!: slot_holdsI [where x = x] split: if_splits option.splits
          dest: lookup_in_range)
  qed
qed

lemma in_flight_set:
  "set (in_flight s) = {(j, y). j < length (slots s) \<and> slots s ! j = Some y}"
proof -
  have "(j, y) \<in> set (in_flight s) \<longleftrightarrow> j < length (slots s) \<and> slots s ! j = Some y" for j y
  proof
    assume "(j, y) \<in> set (in_flight s)"
    then show "j < length (slots s) \<and> slots s ! j = Some y"
      by (auto simp: in_flight_def set_zip split: option.splits)
  next
    assume a: "j < length (slots s) \<and> slots s ! j = Some y"
    then have "(j, Some y) \<in> set (zip [0 ..< length (slots s)] (slots s))"
      by (auto simp: set_zip intro!: exI [of _ j])
    then show "(j, y) \<in> set (in_flight s)"
      by (force simp: in_flight_def)
  qed
  then show ?thesis by auto
qed

lemma session_failed_preserves:
  assumes "slot_holds rpc sn i cont tag" and "session_failed sn' rpc = (invs, rpc')"
  shows "rpc_context rpc' = rpc_context rpc \<and>
         (if sn' = sn then (\<exists>ci. (i, ci) \<in> set invs) \<and>
                           (\<forall>ci. (i, ci) \<in> set invs \<longrightarrow> matches rpc cont tag ci)
          else slot_holds rpc' sn i cont tag)"
proof -
  from slot_holdsD [OF assms(1)] obtain s x where
    s: "lookup_session rpc sn = Some s" "i < length (slots s)" "slots s ! i = Some x"
      "x_cont x = cont" "x_tag x = tag"
    by blast
  show ?thesis
  proof (cases "sn' = sn")
    case True
    have mem: "(i, x) \<in> set (in_flight s)" using s by (simp add: in_flight_set)
    have only: "\<And>y. (i, y) \<in> set (in_flight s) \<Longrightarrow> y = x"
      using s by (simp add: in_flight_set)
    from assms(2) True s have invs: "invs = map (\<lambda>(i, x). (i, failure_invocation rpc x)) (in_flight s)"
      and ctx: "rpc_context rpc' = rpc_context rpc"
      by (auto simp: session_failed_def)
    have ex: "\<exists>ci. (i, ci) \<in> set invs"
      unfolding invs using mem by force
    have all: "\<forall>ci. (i, ci) \<in> set invs \<longrightarrow> matches rpc cont tag ci"
      unfolding invs using only s by (auto simp: matches_def failure_invocation_def)
    show ?thesis using True ctx ex all by simp
  next
    case False
    show ?thesis
      using assms False s
      by (auto simp: session_failed_def lookup_store_other
          intro!: slot_holdsI [where x = x] split: option.splits dest: lookup_in_range)
  qed
qed

lemma lookup_clear_other:
  "lookup_session rpc sn = Some s \<Longrightarrow> 0 \<le> sn' \<Longrightarrow> sn' \<noteq> sn \<Longrightarrow>
   lookup_session (rpc\<lparr>session_vec := (session_vec rpc)[nat sn' := None]\<rparr>) sn = Some s"
  by (auto simp: lookup_session_def is_usr_session_num_in_range_def split: if_splits)

lemma session_disconnected_preserves:
  assumes "slot_holds rpc sn i cont tag" and "session_disconnected sn' rpc = (invs, rpc')"
  shows "rpc_context rpc' = rpc_context rpc \<and>
         (if sn' = sn then (\<exists>ci. (i, ci) \<in> set invs) \<and>
                           (\<forall>ci. (i, ci) \<in> set invs \<longrightarrow> matches rpc cont tag ci)
          else slot_holds rpc' sn i cont tag)"
proof -
  from slot_holdsD [OF assms(1)] obtain s x where
    s: "lookup_session rpc sn = Some s" "i < length (slots s)" "slots s ! i = Some x"
      "x_cont x = cont" "x_tag x = tag"
    by blast
  show ?thesis
  proof (cases "sn' = sn")
    case True
    have mem: "(i, x) \<in> set (in_flight s)" using s by (simp add: in_flight_set)
    have only: "\<And>y. (i, y) \<in> set (in_flight s) \<Longrightarrow> y = x"
      using s by (simp add: in_flight_set)
    from assms(2) True s have invs: "invs = map (\<lambda>(i, x). (i, failure_invocation rpc x)) (in_flight s)"
      and ctx: "rpc_context rpc' = rpc_context rpc"
      by (auto simp: session_disconnected_def)
    have ex: "\<exists>ci. (i, ci) \<in> set invs"
      unfolding invs using mem by force
    have all: "\<forall>ci. (i, ci) \<in> set invs \<longrightarrow> matches rpc cont tag ci"
      unfolding invs using only s by (auto simp: matches_def failure_invocation_def)
    show ?thesis using True ctx ex all by simp
  next
    case False
    show ?thesis
      using assms False s
      by (auto simp: session_disconnected_def lookup_clear_other
          intro!: slot_holdsI [where x = x] split: option.splits dest: lookup_in_range)
  qed
qed

text \<open>
  One event: the invocations it makes for the slot carry the continuation and the tag the
  slot holds, and when it makes none for the slot, the slot still holds them.
\<close>

lemma client_step_preserves:
  assumes "slot_holds rpc sn i cont tag" and "client_step ecfg ev rpc = (invs, rpc')"
  shows "rpc_context rpc' = rpc_context rpc \<and>
         (\<forall>e \<in> set invs. for_slot sn i e \<longrightarrow> matches rpc cont tag (snd (snd e))) \<and>
         ((\<forall>e \<in> set invs. \<not> for_slot sn i e) \<longrightarrow> slot_holds rpc' sn i cont tag)"
proof (cases ev)
  case (ev_enqueue_request tid sn' ty req resp cont' tag')
  with assms(2) enqueue_request_preserves [OF assms(1), of ecfg tid sn' ty req resp cont' tag']
  show ?thesis by auto
next
  case (ev_rx_resp_pkt sn' j pkt)
  obtain r rpc1 where r: "rx_resp_pkt sn' j pkt rpc = (r, rpc1)" by (cases "rx_resp_pkt sn' j pkt rpc")
  from rx_resp_pkt_preserves [OF assms(1) r] assms(2) ev_rx_resp_pkt r
  show ?thesis
    by (cases r) (auto simp: for_slot_def split: if_splits)
next
  case (ev_session_failed sn')
  obtain l rpc1 where l: "session_failed sn' rpc = (l, rpc1)" by (cases "session_failed sn' rpc")
  from session_failed_preserves [OF assms(1) l] assms(2) ev_session_failed l
  show ?thesis
    by (auto simp: for_slot_def split: if_splits)
next
  case (ev_session_disconnected sn')
  obtain l rpc1 where l: "session_disconnected sn' rpc = (l, rpc1)"
    by (cases "session_disconnected sn' rpc")
  from session_disconnected_preserves [OF assms(1) l] assms(2) ev_session_disconnected l
  show ?thesis
    by (auto simp: for_slot_def split: if_splits)
qed

lemma first_invocation_for_slot:
  "first_invocation sn i invs = map_option (\<lambda>e. snd (snd e)) (find (for_slot sn i) invs)"
proof -
  have "(\<lambda>(s, j, ci). s = sn \<and> j = i) = for_slot sn i"
    by (auto simp: for_slot_def fun_eq_iff)
  moreover have "(\<lambda>(s, j, ci). ci) = (\<lambda>e :: int \<times> nat \<times> ContInvocation. snd (snd e))"
    by (auto simp: fun_eq_iff)
  ultimately show ?thesis by (simp add: first_invocation_def)
qed

lemma find_append:
  "find P (xs @ ys) = (case find P xs of None \<Rightarrow> find P ys | Some x \<Rightarrow> Some x)"
  by (induction xs) auto

lemma client_run_first_invocation:
  assumes "slot_holds rpc sn i cont tag"
    and "first_invocation sn i (fst (client_run ecfg evs rpc)) = Some ci"
  shows "matches rpc cont tag ci"
  using assms
proof (induction evs arbitrary: rpc)
  case Nil
  then show ?case by (simp add: first_invocation_def)
next
  case (Cons ev evs)
  obtain invs rpc1 where st: "client_step ecfg ev rpc = (invs, rpc1)"
    by (cases "client_step ecfg ev rpc")
  obtain invs' rpc2 where rn: "client_run ecfg evs rpc1 = (invs', rpc2)"
    by (cases "client_run ecfg evs rpc1")
  note p = client_step_preserves [OF Cons.prems(1) st]
  from Cons.prems(2) st rn have fi:
    "map_option (\<lambda>e. snd (snd e))
       (case find (for_slot sn i) invs of None \<Rightarrow> find (for_slot sn i) invs' | Some x \<Rightarrow> Some x)
     = Some ci"
    by (simp add: first_invocation_for_slot find_append)
  show ?case
  proof (cases "find (for_slot sn i) invs")
    case None
    then have none: "\<forall>e \<in> set invs. \<not> for_slot sn i e"
      by (auto simp: find_None_iff)
    with p have h: "slot_holds rpc1 sn i cont tag" by simp
    from fi None have "first_invocation sn i (fst (client_run ecfg evs rpc1)) = Some ci"
      using rn by (simp add: first_invocation_for_slot)
    from Cons.IH [OF h this] p show ?thesis by (simp add: matches_def)
  next
    case (Some e)
    then have "e \<in> set invs" "for_slot sn i e"
      by (auto simp: find_Some_iff)
    with p have "matches rpc cont tag (snd (snd e))" by blast
    with fi Some show ?thesis by simp
  qed
qed

lemma num_pkts_covers:
  assumes "0 < m"
  shows "sz \<le> num_pkts m sz * m"
proof -
  define q where "q = (sz + m - 1) div m * m"
  define r where "r = (sz + m - 1) mod m"
  have "r < m" using assms by (simp add: r_def)
  moreover have "q + r = sz + m - 1"
    unfolding q_def r_def by (rule div_mult_mod_eq)
  ultimately have "sz \<le> q" using assms by arith
  then show ?thesis by (simp add: num_pkts_def q_def)
qed

lemma num_pkts_pos: "0 < m \<Longrightarrow> 0 < sz \<Longrightarrow> 0 < num_pkts m sz"
  by (simp add: num_pkts_def div_greater_zero_iff)

lemma num_pkts_zero: "0 < m \<Longrightarrow> num_pkts m 0 = 0"
  by (simp add: num_pkts_def)

lemma num_pkts_before:
  assumes "0 < m" "k < num_pkts m sz"
  shows "k * m < sz"
proof (rule ccontr)
  assume "\<not> k * m < sz"
  then have "sz \<le> k * m" by simp
  then have "sz + m - 1 < Suc k * m" using assms(1) by simp
  then have "(sz + m - 1) div m < Suc k"
    using assms(1) by (simp add: div_less_iff_less_mult)
  with assms(2) show False by (simp add: num_pkts_def)
qed

lemma segment_seg: "segment m data = map (seg m data) [0 ..< num_pkts m (length data)]"
  by (simp add: segment_def seg_def)

lemma segment_payload_nonempty:
  assumes "0 < m" "pkt \<in> set (segment m data)"
  shows "p_payload pkt \<noteq> []"
proof -
  from assms(2) obtain k where k: "k < num_pkts m (length data)" and pkt: "pkt = seg m data k"
    by (auto simp: segment_seg)
  from num_pkts_before [OF assms(1) k] have "k * m < length data" .
  then show ?thesis using assms(1) pkt by (simp add: seg_def)
qed

lemma take_next: "(if k = 0 then [] else take (k * m) data) @ take m (drop (k * m) data)
                  = take (Suc k * m) data"
proof -
  have "take (k * m + m) data = take (k * m) data @ take m (drop (k * m) data)"
    by (rule take_add)
  then show ?thesis by (simp add: add.commute)
qed

lemma rx_seg_step:
  assumes "lookup_session rpc sn = Some s" "i < length (slots s)" "slots s ! i = Some x"
    and "x_rx_pkts x = k" "k < num_pkts m (length data)"
    and "k = 0 \<or> buf (x_resp x) = take (k * m) data"
  shows "rx_resp_pkt sn i (seg m data k) rpc =
     (if Suc k = num_pkts m (length data)
      then (Some \<lparr>inv_cont = x_cont x, inv_resp = (x_resp x)\<lparr>buf := take (Suc k * m) data\<rparr>,
                  inv_context = rpc_context rpc, inv_tag = x_tag x\<rparr>,
            store_session rpc sn
              (s\<lparr>slots := list_update (slots s) i None, credits := credits s + 1\<rparr>))
      else (None,
            store_session rpc sn
              (s\<lparr>slots := list_update (slots s) i
                   (Some (x\<lparr>x_resp := (x_resp x)\<lparr>buf := take (Suc k * m) data\<rparr>,
                            x_rx_pkts := Suc k\<rparr>))\<rparr>)))"
proof -
  have b: "(if k = 0 then [] else buf (x_resp x)) @ take m (drop (k * m) data)
           = take (Suc k * m) data"
    using assms(6) take_next [of k m data] by auto
  show ?thesis
  proof (cases "Suc k = num_pkts m (length data)")
    case True
    then have N: "num_pkts m (length data) = Suc k" by simp
    show ?thesis
      using assms(1-4) b by (simp add: rx_resp_pkt_def seg_def Let_def N)
  next
    case False
    then show ?thesis
      using assms(1-5) b by (simp add: rx_resp_pkt_def seg_def Let_def)
  qed
qed

lemma deliver_from:
  assumes "0 < m" "slot_of rpc sn i = Some x" "x_rx_pkts x = k"
    and "k < num_pkts m (length data)"
    and "k = 0 \<or> buf (x_resp x) = take (k * m) data"
  shows "fst (client_run ecfg
           (map (ev_rx_resp_pkt sn i) (map (seg m data) [k ..< num_pkts m (length data)])) rpc)
         = [(sn, i, \<lparr>inv_cont = x_cont x, inv_resp = (x_resp x)\<lparr>buf := data\<rparr>,
                     inv_context = rpc_context rpc, inv_tag = x_tag x\<rparr>)]"
  using assms(2-5)
proof (induction "num_pkts m (length data) - k" arbitrary: k x rpc)
  case 0
  then show ?case by simp
next
  case (Suc n)
  let ?N = "num_pkts m (length data)"
  from slot_of_SomeD [OF Suc.prems(1)] obtain s where
    s: "lookup_session rpc sn = Some s" "i < length (slots s)" "slots s ! i = Some x"
    by blast
  note step = rx_seg_step [OF s Suc.prems(2,3,4)]
  have upt: "[k ..< ?N] = k # [Suc k ..< ?N]"
    using Suc.prems(3) by (simp add: upt_conv_Cons)
  show ?case
  proof (cases "Suc k = ?N")
    case True
    have "take (Suc k * m) data = data"
      using num_pkts_covers [OF assms(1), of "length data"] True by simp
    then show ?thesis
      using step True upt by simp
  next
    case False
    let ?x' = "x\<lparr>x_resp := (x_resp x)\<lparr>buf := take (Suc k * m) data\<rparr>, x_rx_pkts := Suc k\<rparr>"
    let ?rpc' = "store_session rpc sn (s\<lparr>slots := list_update (slots s) i (Some ?x')\<rparr>)"
    have st: "rx_resp_pkt sn i (seg m data k) rpc = (None, ?rpc')"
      using step False by simp
    have slot': "slot_of ?rpc' sn i = Some ?x'"
      using lookup_store_same [OF s(1)] s(2) by (simp add: slot_of_def)
    have n: "n = ?N - Suc k" using Suc.hyps(2) by simp
    have lt: "Suc k < ?N" using False Suc.prems(3) by simp
    have ih: "fst (client_run ecfg
           (map (ev_rx_resp_pkt sn i) (map (seg m data) [Suc k ..< ?N])) ?rpc')
         = [(sn, i, \<lparr>inv_cont = x_cont ?x', inv_resp = (x_resp ?x')\<lparr>buf := data\<rparr>,
                     inv_context = rpc_context ?rpc', inv_tag = x_tag ?x'\<rparr>)]"
      by (rule Suc.hyps(1) [OF n slot' _ lt]) simp_all
    show ?thesis
      using st ih upt by (simp split: prod.splits)
  qed
qed

lemma deliver_response:
  assumes "0 < m" "data \<noteq> []" "slot_of rpc sn i = Some x" "x_rx_pkts x = 0"
  shows "fst (client_run ecfg (map (ev_rx_resp_pkt sn i) (segment m data)) rpc)
         = [(sn, i, \<lparr>inv_cont = x_cont x, inv_resp = (x_resp x)\<lparr>buf := data\<rparr>,
                     inv_context = rpc_context rpc, inv_tag = x_tag x\<rparr>)]"
  using deliver_from [OF assms(1,3,4), of data ecfg] num_pkts_pos [OF assms(1), of "length data"]
    assms(2)
  by (simp add: segment_seg)

lemma enqueue_request_failure_unchanged:
  "enqueue_request ecfg tid sn ty req resp cont tag rpc = (r, rpc') \<Longrightarrow>
   r \<noteq> Inr (Inr 0) \<Longrightarrow> rpc' = rpc"
  by (auto simp: enqueue_request_def Let_def split: if_splits option.splits)

lemma enqueue_request_result:
  "enqueue_request ecfg tid sn ty req resp cont tag rpc = (Inr (Inr r), rpc') \<Longrightarrow> r = 0"
  by (auto simp: enqueue_request_def Let_def split: if_splits option.splits)

lemma enqueue_request_slot_first_invocation:
  assumes "enqueue_request ecfg tid sn ty req resp cont tag rpc = (Inr (Inr r), rpc1)"
  shows "\<exists>i. slot_of rpc sn i = None \<and>
           slot_of rpc1 sn i = Some \<lparr>x_req_type = ty, x_req = req, x_resp = resp,
                                      x_cont = cont, x_tag = tag, x_rx_pkts = 0\<rparr> \<and>
           (\<forall>evs ci. first_invocation sn i (fst (client_run ecfg evs rpc1)) = Some ci \<longrightarrow>
              inv_cont ci = cont \<and> inv_context ci = rpc_context rpc \<and> inv_tag ci = tag)"
proof -
  from enqueue_request_success [OF assms] obtain i where
    ctx: "rpc_context rpc1 = rpc_context rpc" and
    i: "slot_of rpc sn i = None"
      "slot_of rpc1 sn i = Some \<lparr>x_req_type = ty, x_req = req, x_resp = resp,
                                  x_cont = cont, x_tag = tag, x_rx_pkts = 0\<rparr>"
    by blast
  have h: "slot_holds rpc1 sn i cont tag"
    using i(2) by (simp add: slot_holds_def)
  have "inv_cont ci = cont \<and> inv_context ci = rpc_context rpc \<and> inv_tag ci = tag"
    if "first_invocation sn i (fst (client_run ecfg evs rpc1)) = Some ci" for evs ci
    using client_run_first_invocation [OF h that] ctx by (simp add: matches_def)
  with i show ?thesis by blast
qed

lemma send_req_enqueues:
  assumes "send_req ecfg P tid session rand1 rand2 ws_i c rpc = Inr (c', rpc1)"
  shows "ws_i < kAppMaxWindowSize \<and>
         (\<exists>req resp ret. enqueue_request ecfg tid session kAppReqType req resp
             (app_cont_func_ptr P) (of_nat ws_i) rpc = (Inr ret, rpc1))"
  using assms
  by (auto simp: send_req_def Let_def split: if_splits prod.splits sum.splits)

lemma send_req_tag:
  assumes "send_req ecfg P tid session rand1 rand2 ws_i c rpc = Inr (c', rpc1)" "rpc1 \<noteq> rpc"
  shows "\<exists>i. slot_of rpc session i = None \<and>
           (\<forall>evs ci. first_invocation session i (fst (client_run ecfg evs rpc1)) = Some ci \<longrightarrow>
              inv_cont ci = app_cont_func_ptr P \<and> inv_context ci = rpc_context rpc \<and>
              inv_tag ci = of_nat ws_i \<and> unat (inv_tag ci) = ws_i)"
proof -
  from send_req_enqueues [OF assms(1)] obtain req resp ret where
    w: "ws_i < kAppMaxWindowSize" and
    e: "enqueue_request ecfg tid session kAppReqType req resp
             (app_cont_func_ptr P) (of_nat ws_i) rpc = (Inr ret, rpc1)"
    by blast
  have "ret = Inr 0"
    using enqueue_request_failure_unchanged [OF e] assms(2) by blast
  with e have e': "enqueue_request ecfg tid session kAppReqType req resp
             (app_cont_func_ptr P) (of_nat ws_i) rpc = (Inr (Inr 0), rpc1)" by simp
  have u: "unat (of_nat ws_i :: 64 word) = ws_i"
    using w by (simp add: kAppMaxWindowSize_def unat_of_nat)
  from enqueue_request_slot_first_invocation [OF e'] u show ?thesis
    by (metis (no_types, lifting))
qed

lemma enqueue_request_then_complete:
  assumes "enqueue_request ecfg tid sn ty req resp cont tag rpc = (Inr (Inr r), rpc1)"
  shows "\<exists>i. slot_of rpc sn i = None \<and>
           slot_of rpc1 sn i = Some \<lparr>x_req_type = ty, x_req = req, x_resp = resp,
                                      x_cont = cont, x_tag = tag, x_rx_pkts = 0\<rparr> \<and>
           (\<forall>evs ci. first_invocation sn i (fst (client_run ecfg evs rpc1)) = Some ci \<longrightarrow>
              inv_cont ci = cont \<and> inv_context ci = rpc_context rpc \<and> inv_tag ci = tag) \<and>
           (\<forall>data. 0 < mtu ecfg \<and> data \<noteq> [] \<longrightarrow>
              fst (client_run ecfg (map (ev_rx_resp_pkt sn i) (segment (mtu ecfg) data)) rpc1)
              = [(sn, i, \<lparr>inv_cont = cont, inv_resp = resp\<lparr>buf := data\<rparr>,
                          inv_context = rpc_context rpc, inv_tag = tag\<rparr>)])"
proof -
  from enqueue_request_slot_first_invocation [OF assms] obtain i where
    i: "slot_of rpc sn i = None"
      "slot_of rpc1 sn i = Some \<lparr>x_req_type = ty, x_req = req, x_resp = resp,
                                  x_cont = cont, x_tag = tag, x_rx_pkts = 0\<rparr>"
      "\<forall>evs ci. first_invocation sn i (fst (client_run ecfg evs rpc1)) = Some ci \<longrightarrow>
              inv_cont ci = cont \<and> inv_context ci = rpc_context rpc \<and> inv_tag ci = tag"
    by blast
  from enqueue_request_success [OF assms] have ctx: "rpc_context rpc1 = rpc_context rpc"
    by simp
  have "fst (client_run ecfg (map (ev_rx_resp_pkt sn i) (segment (mtu ecfg) data)) rpc1)
              = [(sn, i, \<lparr>inv_cont = cont, inv_resp = resp\<lparr>buf := data\<rparr>,
                          inv_context = rpc_context rpc, inv_tag = tag\<rparr>)]"
    if "0 < mtu ecfg" "data \<noteq> []" for data
    using deliver_response [OF that i(2), of ecfg] ctx by simp
  with i show ?thesis by blast
qed

text \<open>
  C8. After a successful \<open>enqueue_request\<close> the exchange occupies a slot that was free, and
  the first continuation the endpoint invokes for that slot, whatever happens on the
  endpoint in between and whether the exchange completes or fails, is the continuation
  given, with the context of the endpoint and the tag given. When the packets of a response
  arrive, that invocation is made, and its handle holds the response. So the request that
  \<open>send_req\<close> of the key-value client enqueues for window slot \<open>ws_i\<close> comes back to
  \<open>app_cont_func\<close> with tag \<open>ws_i\<close>.
\<close>

theorem continuation_gets_context_and_tag:
  "(enqueue_request ecfg tid sn ty req resp cont tag rpc = (Inr (Inr r), rpc1) \<longrightarrow>
      (\<exists>i. slot_of rpc sn i = None \<and>
           slot_of rpc1 sn i = Some \<lparr>x_req_type = ty, x_req = req, x_resp = resp,
                                      x_cont = cont, x_tag = tag, x_rx_pkts = 0\<rparr> \<and>
           (\<forall>evs ci. first_invocation sn i (fst (client_run ecfg evs rpc1)) = Some ci \<longrightarrow>
              inv_cont ci = cont \<and> inv_context ci = rpc_context rpc \<and> inv_tag ci = tag) \<and>
           (\<forall>data. 0 < mtu ecfg \<and> data \<noteq> [] \<longrightarrow>
              fst (client_run ecfg (map (ev_rx_resp_pkt sn i) (segment (mtu ecfg) data)) rpc1)
              = [(sn, i, \<lparr>inv_cont = cont, inv_resp = resp\<lparr>buf := data\<rparr>,
                          inv_context = rpc_context rpc, inv_tag = tag\<rparr>)]))) \<and>
   (send_req ecfg P tid session rand1 rand2 ws_i c rpc = Inr (c', rpc2) \<and> rpc2 \<noteq> rpc \<longrightarrow>
      (\<exists>i. slot_of rpc session i = None \<and>
           (\<forall>evs ci. first_invocation session i (fst (client_run ecfg evs rpc2)) = Some ci \<longrightarrow>
              inv_cont ci = app_cont_func_ptr P \<and> inv_context ci = rpc_context rpc \<and>
              inv_tag ci = of_nat ws_i \<and> unat (inv_tag ci) = ws_i)))"
  using enqueue_request_then_complete [of ecfg tid sn ty req resp cont tag rpc r rpc1]
    send_req_tag [of ecfg P tid session rand1 rand2 ws_i c rpc c' rpc2]
  by blast

lemma example_enqueue:
  "enqueue_request example_ecfg 7 0 1 \<lparr>max_data_size = 8, buf = [7]\<rparr>
     \<lparr>max_data_size = 8, buf = []\<rparr> 99 5 example_rpc
   = (Inr (Inr 0),
      example_rpc\<lparr>session_vec :=
          [Some (example_session\<lparr>slots := [Some example_exchange, None], credits := 7,
                                  seq_counter := 1\<rparr>)],
        tx_list := [(0, 0, 0)]\<rparr>)"
  by (simp add: enqueue_request_def example_ecfg_def example_rpc_def example_session_def
      example_exchange_def in_creator_def get_data_size_def lookup_session_def
      store_session_def is_usr_session_num_in_range_def is_connected_def Let_def)

theorem continuation_gets_context_and_tag_witness:
  "(\<exists>rpc1. enqueue_request example_ecfg 7 0 1 \<lparr>max_data_size = 8, buf = [7]\<rparr>
             \<lparr>max_data_size = 8, buf = []\<rparr> 99 5 example_rpc = (Inr (Inr 0), rpc1) \<and>
      (\<exists>i. slot_of example_rpc 0 i = None \<and>
         fst (client_run example_ecfg
                (map (ev_rx_resp_pkt 0 i) (segment (mtu example_ecfg) [1, 2, 3, 4, 5])) rpc1)
         = [(0, i, \<lparr>inv_cont = 99, inv_resp = \<lparr>max_data_size = 8, buf = [1, 2, 3, 4, 5]\<rparr>,
                     inv_context = rpc_context example_rpc, inv_tag = 5\<rparr>)])) \<and>
   (\<exists>c' rpc2. send_req example_ecfg example_kv_params 7 0 0 0 3 example_kv_client example_rpc
               = Inr (c', rpc2) \<and> rpc2 \<noteq> example_rpc \<and>
      (\<exists>i. slot_of example_rpc 0 i = None \<and>
         fst (client_run example_ecfg [ev_session_failed 0] rpc2)
           = [(0, i, \<lparr>inv_cont = 77, inv_resp = \<lparr>max_data_size = 48, buf = []\<rparr>,
                       inv_context = rpc_context example_rpc, inv_tag = 3\<rparr>)]))"
proof -
  let ?req = "\<lparr>max_data_size = 8, buf = [7]\<rparr>"
  let ?resp = "\<lparr>max_data_size = 8, buf = []\<rparr>"
  obtain rpc1 where e: "enqueue_request example_ecfg 7 0 1 ?req ?resp 99 5 example_rpc
      = (Inr (Inr 0), rpc1)"
    using example_enqueue by blast
  from continuation_gets_context_and_tag [THEN conjunct1, rule_format, OF e] obtain i where
    i: "slot_of example_rpc 0 i = None"
      "\<forall>data. 0 < mtu example_ecfg \<and> data \<noteq> [] \<longrightarrow>
          fst (client_run example_ecfg
                 (map (ev_rx_resp_pkt 0 i) (segment (mtu example_ecfg) data)) rpc1)
          = [(0, i, \<lparr>inv_cont = 99, inv_resp = ?resp\<lparr>buf := data\<rparr>,
                      inv_context = rpc_context example_rpc, inv_tag = 5\<rparr>)]"
    by blast
  have m: "0 < mtu example_ecfg" by (simp add: example_ecfg_def)
  from i(2) [rule_format, of "[1, 2, 3, 4, 5]"] m
  have d: "fst (client_run example_ecfg
                (map (ev_rx_resp_pkt 0 i) (segment (mtu example_ecfg) [1, 2, 3, 4, 5])) rpc1)
         = [(0, i, \<lparr>inv_cont = 99, inv_resp = \<lparr>max_data_size = 8, buf = [1, 2, 3, 4, 5]\<rparr>,
                     inv_context = rpc_context example_rpc, inv_tag = 5\<rparr>)]"
    by simp
  have first: "\<exists>rpc1. enqueue_request example_ecfg 7 0 1 ?req ?resp 99 5 example_rpc
        = (Inr (Inr 0), rpc1) \<and>
      (\<exists>i. slot_of example_rpc 0 i = None \<and>
         fst (client_run example_ecfg
                (map (ev_rx_resp_pkt 0 i) (segment (mtu example_ecfg) [1, 2, 3, 4, 5])) rpc1)
         = [(0, i, \<lparr>inv_cont = 99, inv_resp = \<lparr>max_data_size = 8, buf = [1, 2, 3, 4, 5]\<rparr>,
                     inv_context = rpc_context example_rpc, inv_tag = 5\<rparr>)])"
    using e i(1) d by blast
  have "\<exists>c' rpc2. send_req example_ecfg example_kv_params 7 0 0 0 3 example_kv_client example_rpc
               = Inr (c', rpc2) \<and> tx_list rpc2 = [(0, 0, 0)] \<and>
          fst (client_run example_ecfg [ev_session_failed 0] rpc2)
           = [(0, 0, \<lparr>inv_cont = 77, inv_resp = \<lparr>max_data_size = 48, buf = []\<rparr>,
                       inv_context = rpc_context example_rpc, inv_tag = 3\<rparr>)]"
    by (simp add: send_req_def enqueue_request_def example_ecfg_def example_rpc_def
        example_session_def example_kv_params_def example_kv_client_def in_creator_def
        get_data_size_def lookup_session_def store_session_def
        is_usr_session_num_in_range_def is_connected_def Let_def kAppMaxWindowSize_def
        kAppReqType_def sizeof_Key_def sizeof_Value_def session_failed_def in_flight_def
        failure_invocation_def)
  then obtain c' rpc2 where
    s: "send_req example_ecfg example_kv_params 7 0 0 0 3 example_kv_client example_rpc
               = Inr (c', rpc2)"
    and t: "tx_list rpc2 = [(0, 0, 0)]"
    and f: "fst (client_run example_ecfg [ev_session_failed 0] rpc2)
           = [(0, 0, \<lparr>inv_cont = 77, inv_resp = \<lparr>max_data_size = 48, buf = []\<rparr>,
                       inv_context = rpc_context example_rpc, inv_tag = 3\<rparr>)]"
    by blast
  have ne: "rpc2 \<noteq> example_rpc"
    using t by (auto simp: example_rpc_def)
  from continuation_gets_context_and_tag [THEN conjunct2, rule_format, OF conjI [OF s ne]]
  obtain j where j: "slot_of example_rpc 0 j = None"
    "\<forall>evs ci. first_invocation 0 j (fst (client_run example_ecfg evs rpc2)) = Some ci \<longrightarrow>
        inv_cont ci = app_cont_func_ptr example_kv_params \<and>
        inv_context ci = rpc_context example_rpc \<and>
        inv_tag ci = of_nat 3 \<and> unat (inv_tag ci) = 3"
    by blast
  have z: "slot_of example_rpc 0 0 = None"
    by (simp add: slot_of_def lookup_session_def is_usr_session_num_in_range_def
        example_rpc_def example_session_def)
  from s ne z f have second:
    "\<exists>c' rpc2. send_req example_ecfg example_kv_params 7 0 0 0 3 example_kv_client example_rpc
               = Inr (c', rpc2) \<and> rpc2 \<noteq> example_rpc \<and>
      (\<exists>i. slot_of example_rpc 0 i = None \<and>
         fst (client_run example_ecfg [ev_session_failed 0] rpc2)
           = [(0, i, \<lparr>inv_cont = 77, inv_resp = \<lparr>max_data_size = 48, buf = []\<rparr>,
                       inv_context = rpc_context example_rpc, inv_tag = 3\<rparr>)])"
    by blast
  from first second show ?thesis by blast
qed

lemma rx_resp_pkt_invocation_size:
  assumes "rx_resp_pkt sn i pkt rpc = (Some ci, rpc')" "p_payload pkt \<noteq> []"
  shows "0 < get_data_size (inv_resp ci)"
  using assms
  by (auto simp: rx_resp_pkt_def Let_def get_data_size_def split: option.splits if_splits)

lemma failure_invocation_size: "get_data_size (inv_resp (failure_invocation rpc x)) = 0"
  by (simp add: failure_invocation_def get_data_size_def)

lemma session_failed_sizes:
  "e \<in> set (fst (session_failed sn rpc)) \<Longrightarrow> get_data_size (inv_resp (snd e)) = 0"
  by (auto simp: session_failed_def failure_invocation_size split: option.splits)

lemma session_disconnected_sizes:
  "e \<in> set (fst (session_disconnected sn rpc)) \<Longrightarrow> get_data_size (inv_resp (snd e)) = 0"
  by (auto simp: session_disconnected_def failure_invocation_size split: option.splits)

lemma segment_empty: "0 < m \<Longrightarrow> segment m [] = []"
  by (simp add: segment_def num_pkts_zero)

text \<open>
  C3. What a continuation is given tells a response from a failure by the size of the
  response buffer, and by nothing else (an invocation is the handle, the context and the
  tag). With packets of a positive size \<open>m\<close>:
  \<^item> an invocation made on receipt of a packet of a response has a response buffer with
    data; when all packets of a response arrive for a fresh exchange, the one invocation
    made holds exactly the response, which is not empty (an empty response has no packet);
  \<^item> the invocations made when a session fails or has been disconnected have an empty
    response buffer;
  \<^item> the continuation of the consensus client reads a buffer with data as the server's
    response and takes an empty buffer as a failure, on which it changes the leader.
\<close>

theorem payload_size_tells_outcome:
  assumes "0 < m"
  shows "(pkt \<in> set (segment m data) \<and> rx_resp_pkt sn i pkt rpc = (Some ci, rpc') \<longrightarrow>
            0 < get_data_size (inv_resp ci)) \<and>
         segment m [] = [] \<and>
         (data \<noteq> [] \<and> slot_of rpc sn i = Some x \<and> x_rx_pkts x = 0 \<longrightarrow>
            (\<exists>ci. fst (client_run ecfg (map (ev_rx_resp_pkt sn i) (segment m data)) rpc)
                    = [(sn, i, ci)] \<and>
                  buf (inv_resp ci) = data \<and> 0 < get_data_size (inv_resp ci))) \<and>
         (\<forall>e \<in> set (fst (session_failed sn rpc)). get_data_size (inv_resp (snd e)) = 0) \<and>
         (\<forall>e \<in> set (fst (session_disconnected sn rpc)). get_data_size (inv_resp (snd e)) = 0) \<and>
         (get_data_size (cl_resp_msgbuf c) = 0 \<longrightarrow>
            client_cont_response P c = change_leader_to_any P c) \<and>
         (0 < get_data_size (cl_resp_msgbuf c) \<and>
          resp_type (decode_resp P (buf (cl_resp_msgbuf c))) \<noteq> kFailRedirect \<longrightarrow>
            client_cont_response P c = Inr c)"
proof (intro conjI impI ballI)
  assume "pkt \<in> set (segment m data) \<and> rx_resp_pkt sn i pkt rpc = (Some ci, rpc')"
  then show "0 < get_data_size (inv_resp ci)"
    using segment_payload_nonempty [OF assms] rx_resp_pkt_invocation_size by blast
next
  show "segment m [] = []" using assms by (rule segment_empty)
next
  assume a: "data \<noteq> [] \<and> slot_of rpc sn i = Some x \<and> x_rx_pkts x = 0"
  then have "fst (client_run ecfg (map (ev_rx_resp_pkt sn i) (segment m data)) rpc)
         = [(sn, i, \<lparr>inv_cont = x_cont x, inv_resp = (x_resp x)\<lparr>buf := data\<rparr>,
                     inv_context = rpc_context rpc, inv_tag = x_tag x\<rparr>)]"
    using deliver_response [OF assms, of data rpc sn i x ecfg] by simp
  with a show "\<exists>ci. fst (client_run ecfg (map (ev_rx_resp_pkt sn i) (segment m data)) rpc)
                    = [(sn, i, ci)] \<and>
                  buf (inv_resp ci) = data \<and> 0 < get_data_size (inv_resp ci)"
    by (simp add: get_data_size_def)
next
  fix e assume "e \<in> set (fst (session_failed sn rpc))"
  then show "get_data_size (inv_resp (snd e)) = 0" by (rule session_failed_sizes)
next
  fix e assume "e \<in> set (fst (session_disconnected sn rpc))"
  then show "get_data_size (inv_resp (snd e)) = 0" by (rule session_disconnected_sizes)
next
  assume "get_data_size (cl_resp_msgbuf c) = 0"
  then show "client_cont_response P c = change_leader_to_any P c"
    by (simp add: client_cont_response_def)
next
  assume "0 < get_data_size (cl_resp_msgbuf c) \<and>
          resp_type (decode_resp P (buf (cl_resp_msgbuf c))) \<noteq> kFailRedirect"
  then show "client_cont_response P c = Inr c"
    by (cases "resp_type (decode_resp P (buf (cl_resp_msgbuf c)))")
      (simp_all add: client_cont_response_def Let_def)
qed

theorem payload_size_tells_outcome_witness:
  "0 < (4 :: nat) \<and>
   (\<exists>ci rpc'. rx_resp_pkt 0 0 \<lparr>p_idx = 0, p_total = 1, p_payload = [9]\<rparr> example_client_rpc
                 = (Some ci, rpc') \<and> 0 < get_data_size (inv_resp ci)) \<and>
   (\<exists>ci. fst (client_run example_ecfg (map (ev_rx_resp_pkt 0 0) (segment 4 [1, 2, 3, 4, 5]))
                 example_client_rpc) = [(0, 0, ci)] \<and>
         buf (inv_resp ci) = [1, 2, 3, 4, 5] \<and> 0 < get_data_size (inv_resp ci)) \<and>
   (\<exists>e. fst (session_failed 0 example_client_rpc) = [e] \<and>
        get_data_size (inv_resp (snd e)) = 0) \<and>
   (\<exists>e. fst (session_disconnected 0 example_client_rpc) = [e] \<and>
        get_data_size (inv_resp (snd e)) = 0) \<and>
   client_cont_response example_consensus_params example_consensus_client
     = Inr (example_consensus_client\<lparr>leader_idx := 1\<rparr>) \<and>
   client_cont_response example_consensus_params
       (example_consensus_client\<lparr>cl_resp_msgbuf := \<lparr>max_data_size = 8, buf = [1]\<rparr>\<rparr>)
     = Inr (example_consensus_client\<lparr>cl_resp_msgbuf := \<lparr>max_data_size = 8, buf = [1]\<rparr>\<rparr>)"
proof -
  have m: "0 < (4 :: nat)" by simp
  let ?pkt = "\<lparr>p_idx = 0, p_total = 1, p_payload = [9]\<rparr>"
  have seg1: "?pkt \<in> set (segment 4 [9])"
    by (simp add: segment_def num_pkts_def)
  have "\<exists>ci rpc'. rx_resp_pkt 0 0 ?pkt example_client_rpc = (Some ci, rpc')"
    by (simp add: rx_resp_pkt_def example_client_rpc_def example_rpc_def example_session_def
        example_exchange_def lookup_session_def is_usr_session_num_in_range_def Let_def)
  then obtain ci1 rpc1 where rx: "rx_resp_pkt 0 0 ?pkt example_client_rpc = (Some ci1, rpc1)"
    by blast
  note t1 = payload_size_tells_outcome [OF m, of ?pkt "[9]" 0 0 example_client_rpc ci1 rpc1]
  from t1 seg1 rx have a: "0 < get_data_size (inv_resp ci1)" by blast
  have slot: "slot_of example_client_rpc 0 0 = Some example_exchange"
    "x_rx_pkts example_exchange = 0"
    by (simp_all add: slot_of_def example_client_rpc_def example_rpc_def example_session_def
        example_exchange_def lookup_session_def is_usr_session_num_in_range_def)
  note t2 = payload_size_tells_outcome [OF m, of _ "[1, 2, 3, 4, 5]" 0 0 example_client_rpc _ _
      example_exchange example_ecfg example_consensus_client example_consensus_params]
  from t2 slot have b: "\<exists>ci. fst (client_run example_ecfg
        (map (ev_rx_resp_pkt 0 0) (segment 4 [1, 2, 3, 4, 5])) example_client_rpc) = [(0, 0, ci)] \<and>
         buf (inv_resp ci) = [1, 2, 3, 4, 5] \<and> 0 < get_data_size (inv_resp ci)"
    by simp
  have f: "\<exists>e. fst (session_failed 0 example_client_rpc) = [e]"
    "\<exists>e. fst (session_disconnected 0 example_client_rpc) = [e]"
    by (simp_all add: session_failed_def session_disconnected_def in_flight_def
        example_client_rpc_def example_rpc_def example_session_def
        lookup_session_def is_usr_session_num_in_range_def upt_rec)
  from f(1) t2 have c: "\<exists>e. fst (session_failed 0 example_client_rpc) = [e] \<and>
        get_data_size (inv_resp (snd e)) = 0"
    by fastforce
  from f(2) t2 have d: "\<exists>e. fst (session_disconnected 0 example_client_rpc) = [e] \<and>
        get_data_size (inv_resp (snd e)) = 0"
    by fastforce
  have any: "change_leader_to_any example_consensus_params example_consensus_client
      = Inr (example_consensus_client\<lparr>leader_idx := 1\<rparr>)"
    by (simp add: change_leader_to_any_def example_consensus_params_def
        example_consensus_client_def upt_rec Let_def)
  have z: "get_data_size (cl_resp_msgbuf example_consensus_client) = 0"
    by (simp add: get_data_size_def example_consensus_client_def)
  from t2 z any have g: "client_cont_response example_consensus_params example_consensus_client
     = Inr (example_consensus_client\<lparr>leader_idx := 1\<rparr>)"
    by simp
  let ?c = "example_consensus_client\<lparr>cl_resp_msgbuf := \<lparr>max_data_size = 8, buf = [1]\<rparr>\<rparr>"
  have p: "0 < get_data_size (cl_resp_msgbuf ?c)"
    "resp_type (decode_resp example_consensus_params (buf (cl_resp_msgbuf ?c))) \<noteq> kFailRedirect"
    by (simp_all add: get_data_size_def example_consensus_params_def)
  from payload_size_tells_outcome [OF m, of _ _ _ _ _ _ _ _ _ ?c example_consensus_params] p
  have h: "client_cont_response example_consensus_params ?c = Inr ?c"
    by blast
  from m rx a b c d g h show ?thesis by blast
qed

end
